theory Spec2Isabelle
  imports Main "HOL-Library.Char_ord" "HOL-Library.List_Lexorder"
begin

section \<open>The protobuf schema translator of capa (capa/render/proto/__init__.py)\<close>

text \<open>
  The translator walks a JSON schema (as produced by pydantic) and writes a proto3
  document. Python dictionaries of the schema are modelled by typed values: a key that
  may be absent is an \<open>option\<close> field, and a read of an absent key is the \<open>KeyError\<close>
  branch of the model. Strings are byte strings; Python compares them code point by code
  point, which is the lexicographic order on \<open>char list\<close>.
\<close>

subsection \<open>Errors\<close>

text \<open>
  The exceptions the module raises. The three \<open>ValueError\<close>s of the source are told
  apart by their message: \<open>unexpected name\<close>, \<open>title mismatch\<close> and
  \<open>unexpected type\<close>.
\<close>

datatype error =
    NotImplementedError
  | ValueError_unexpected_name
  | ValueError_title_mismatch
  | ValueError_unexpected_type
  | KeyError
  | AssertionError
  | TypeError

text \<open>Sequencing of fallible steps: the first exception ends the computation.\<close>

definition bind_err :: "error + 'a \<Rightarrow> ('a \<Rightarrow> error + 'b) \<Rightarrow> error + 'b" where
  "bind_err m f = (case m of Inl e \<Rightarrow> Inl e | Inr x \<Rightarrow> f x)"

fun sequence_err :: "(error + 'a) list \<Rightarrow> error + 'a list" where
  "sequence_err [] = Inr []"
| "sequence_err (m # ms) =
     (case m of
        Inl e \<Rightarrow> Inl e
      | Inr x \<Rightarrow> (case sequence_err ms of Inl e \<Rightarrow> Inl e | Inr xs \<Rightarrow> Inr (x # xs)))"

subsection \<open>Strings\<close>

definition lower_letters :: string where
  "lower_letters = ''abcdefghijklmnopqrstuvwxyz''"

definition upper_letters :: string where
  "upper_letters = ''ABCDEFGHIJKLMNOPQRSTUVWXYZ''"

text \<open>
  \<open>str.upper\<close> on ASCII text: the 26 lower-case letters change, nothing else does. A
  character outside ASCII, which \<open>str.upper\<close> may change as well, is left as it is.
\<close>

definition upper_char :: "char \<Rightarrow> char" where
  "upper_char c = (case map_of (zip lower_letters upper_letters) c of Some u \<Rightarrow> u | None \<Rightarrow> c)"

definition upper :: "string \<Rightarrow> string" where
  "upper s = map upper_char s"

text \<open>\<open>str.replace(old, new)\<close> for one-character \<open>old\<close> and \<open>new\<close>.\<close>

definition replace :: "char \<Rightarrow> char \<Rightarrow> string \<Rightarrow> string" where
  "replace old new s = map (\<lambda>c. if c = old then new else c) s"

text \<open>\<open>sep.join(xs)\<close>.\<close>

fun join :: "string \<Rightarrow> string list \<Rightarrow> string" where
  "join sep [] = []"
| "join sep [x] = x"
| "join sep (x # y # ys) = x @ sep @ join sep (y # ys)"

text \<open>The decimal rendering of a non-negative integer by an f-string.\<close>

definition digit :: "nat \<Rightarrow> char" where
  "digit d = ''0123456789'' ! d"

fun str_nat :: "nat \<Rightarrow> string" where
  "str_nat n = (if n < 10 then [digit n] else str_nat (n div 10) @ [digit (n mod 10)])"

declare str_nat.simps [simp del]

text \<open>\<open>enumerate(xs)\<close>, as a list of pairs.\<close>

definition enumerate_from0 :: "'a list \<Rightarrow> (nat \<times> 'a) list" where
  "enumerate_from0 xs = zip [0 ..< length xs] xs"

text \<open>
  \<open>xs.index(x)\<close> where \<open>x\<close> occurs in \<open>xs\<close>: the position of the first occurrence.
  (The callers test membership first, as the source catches \<open>ValueError\<close>.)
\<close>

definition index :: "'a list \<Rightarrow> 'a \<Rightarrow> nat" where
  "index xs x = length (takeWhile (\<lambda>y. y \<noteq> x) xs)"

subsection \<open>The schema\<close>

text \<open>
  A property description is a dictionary with the keys \<open>$ref\<close>, \<open>type\<close>, \<open>title\<close>,
  \<open>minItems\<close>, \<open>maxItems\<close>, \<open>items\<close>, \<open>additionalProperties\<close> and \<open>anyOf\<close>, each
  present or absent. The value of \<open>items\<close> is one description (a dict) or a list of them.
\<close>

datatype property =
  Prop (p_ref: "string option")
       (p_type: "string option")
       (p_title: "string option")
       (p_minItems: "int option")
       (p_maxItems: "int option")
       (p_items: "items option")
       (p_additionalProperties: "property option")
       (p_anyOf: "property list option")
and items = ItemsDict property | ItemsList "property list"

text \<open>
  A definition of the schema: \<open>title\<close>, \<open>type\<close>, and \<open>enum\<close> (a list of strings) or
  \<open>properties\<close> (a dictionary, in the order the schema declares them).
\<close>

record schema_def =
  d_title :: "string option"
  d_type :: "string option"
  d_enum :: "string list option"
  d_properties :: "(string \<times> property) list option"

text \<open>The schema: the dictionary \<open>definitions\<close>, in the order it is presented.\<close>

record schema =
  definitions :: "(string \<times> schema_def) list"

subsection \<open>The output\<close>

text \<open>
  The document is the sequence of strings handed to \<open>out.writeln\<close>, in order (the class
  \<open>StringIO\<close> of \<open>capa.render.utils\<close>, which joins them, is not part of the translator).
  Each \<open>writeln\<close> of the source is one \<open>line\<close> value; \<open>render_line\<close> is its f-string.
  An exception leaves no document: the result is the error alone.
\<close>

datatype line =
    Text string
  | EnumOpen string
  | EnumValue string nat
  | MessageOpen string
  | MessageField string string nat
  | OneofOpen string
  | OneofField string nat nat
  | OneofClose
  | MapField string string nat
  | Close
  | Blank
  | ArrayWrapper string string
  | TupleOpen string
  | TupleField string nat nat
  | TupleClose

fun render_line :: "line \<Rightarrow> string" where
  "render_line (Text s) = s"
| "render_line (EnumOpen title) = ''enum '' @ title @ '' {''"
| "render_line (EnumValue name n) = ''  '' @ name @ '' = '' @ str_nat n @ '';''"
| "render_line (MessageOpen title) = ''message '' @ title @ '' {''"
| "render_line (MessageField ptype name i) = ''  '' @ ptype @ '' '' @ name @ '' = '' @ str_nat i @ '';''"
| "render_line (OneofOpen name) = ''  oneof '' @ name @ '' {''"
| "render_line (OneofField ptype j i) =
     ''    '' @ ptype @ '' v'' @ str_nat j @ '' = '' @ str_nat i @ '';''"
| "render_line OneofClose = ''  };''"
| "render_line (MapField vtype name i) =
     ''  map <string, '' @ vtype @ ''> '' @ name @ '' = '' @ str_nat i @ '';''"
| "render_line Close = ''}''"
| "render_line Blank = ''''"
| "render_line (ArrayWrapper name vtype) =
     ''message '' @ name @ '' { repeated '' @ vtype @ '' values = 1; }'' @ [CHR 0x0A]"
| "render_line (TupleOpen name) = ''message '' @ name @ '' {''"
| "render_line (TupleField vtype i n) =
     ''  '' @ vtype @ '' v'' @ str_nat i @ '' = '' @ str_nat n @ '';''"
| "render_line TupleClose = ''}'' @ [CHR 0x0A]"

subsection \<open>Enum emission\<close>

definition render_value :: "string \<Rightarrow> string \<Rightarrow> string" where
  "render_value prefix v = prefix @ ''_'' @ replace CHR '' '' CHR ''_'' (upper v)"

definition emit_proto_enum :: "line list \<Rightarrow> schema_def \<Rightarrow> error + line list" where
  "emit_proto_enum out enum =
     (case d_title enum of
        None \<Rightarrow> Inl KeyError
      | Some title \<Rightarrow>
          (case d_enum enum of
             None \<Rightarrow> Inl KeyError
           | Some vs \<Rightarrow>
               Inr (out
                    @ [EnumOpen title, EnumValue (render_value (upper title) ''unspecified'') 0]
                    @ map (\<lambda>(i, v). EnumValue (render_value (upper title) v) (i + 1))
                        (enumerate_from0 vs)
                    @ [Close, Blank])))"

subsection \<open>Type classification\<close>

definition is_ref :: "property \<Rightarrow> bool" where
  "is_ref prop = (p_ref prop \<noteq> None)"

text \<open>
  The source asserts \<open>is_ref(prop)\<close> and that the pointer starts with
  \<open>#/definitions/\<close> (14 characters), and returns the rest of the pointer.
\<close>

definition get_ref_type_name :: "property \<Rightarrow> error + string" where
  "get_ref_type_name prop =
     (case p_ref prop of
        None \<Rightarrow> Inl AssertionError
      | Some r \<Rightarrow>
          if take 14 r = ''#/definitions/'' then Inr (drop 14 r) else Inl AssertionError)"

definition is_primitive_type :: "property \<Rightarrow> bool" where
  "is_primitive_type prop = (case p_type prop of None \<Rightarrow> False | Some t \<Rightarrow> t \<noteq> ''object'')"

definition is_custom_type :: "property \<Rightarrow> bool" where
  "is_custom_type prop =
     (case p_type prop of
        None \<Rightarrow> False
      | Some t \<Rightarrow> t = ''object'' \<and> p_additionalProperties prop = None)"

definition get_custom_type_name :: "property \<Rightarrow> error + string" where
  "get_custom_type_name prop = (case p_title prop of None \<Rightarrow> Inl KeyError | Some t \<Rightarrow> Inr t)"

definition is_tuple :: "property \<Rightarrow> bool" where
  "is_tuple prop =
     (case p_type prop of
        None \<Rightarrow> False
      | Some t \<Rightarrow>
          if t \<noteq> ''array'' then False
          else (case p_maxItems prop of
                  None \<Rightarrow> False
                | Some mx \<Rightarrow>
                    (case p_minItems prop of
                       None \<Rightarrow> False
                     | Some mn \<Rightarrow> if mx \<noteq> mn then False else True)))"

text \<open>\<open>is_array\<close> reads \<open>prop["items"]\<close>, which raises when the key is absent.\<close>

definition is_array :: "property \<Rightarrow> error + bool" where
  "is_array prop =
     (case p_type prop of
        None \<Rightarrow> Inr False
      | Some t \<Rightarrow>
          if t \<noteq> ''array'' then Inr False
          else if p_maxItems prop \<noteq> None \<and> p_minItems prop \<noteq> None
                  \<and> p_maxItems prop = p_minItems prop then Inr False
          else (case p_items prop of
                  None \<Rightarrow> Inl KeyError
                | Some (ItemsList xs) \<Rightarrow> Inr False
                | Some (ItemsDict d) \<Rightarrow> Inr True))"

definition is_map :: "property \<Rightarrow> bool" where
  "is_map prop =
     (case p_type prop of
        None \<Rightarrow> False
      | Some t \<Rightarrow> t = ''object'' \<and> p_additionalProperties prop \<noteq> None)"

definition is_union :: "property \<Rightarrow> bool" where
  "is_union prop = (p_anyOf prop \<noteq> None)"

text \<open>
  Iterating over a dictionary yields its keys, in insertion order. A description does
  not record that order: \<open>keys\<close> lists the keys present in the order of the fields of
  \<open>property\<close>. The order only decides which of the two exceptions of
  \<open>get_type_name_of_key\<close> a tuple whose \<open>items\<close> is a dictionary ends with.
\<close>

definition keys :: "property \<Rightarrow> string list" where
  "keys prop =
     (if p_ref prop \<noteq> None then [''$ref''] else [])
     @ (if p_type prop \<noteq> None then [''type''] else [])
     @ (if p_title prop \<noteq> None then [''title''] else [])
     @ (if p_minItems prop \<noteq> None then [''minItems''] else [])
     @ (if p_maxItems prop \<noteq> None then [''maxItems''] else [])
     @ (if p_items prop \<noteq> None then [''items''] else [])
     @ (if p_additionalProperties prop \<noteq> None then [''additionalProperties''] else [])
     @ (if p_anyOf prop \<noteq> None then [''anyOf''] else [])"

text \<open>
  \<open>get_type_name\<close> applied to one of these keys, a string: \<open>"type" in k\<close> and
  \<open>"$ref" in k\<close> are substring tests, which only the keys \<open>type\<close> and \<open>$ref\<close> pass;
  subscripting the string with a string then raises \<open>TypeError\<close>. Every other key
  reaches the final \<open>raise NotImplementedError\<close>.
\<close>

definition get_type_name_of_key :: "string \<Rightarrow> error + string" where
  "get_type_name_of_key k =
     (if k = ''type'' \<or> k = ''$ref'' then Inl TypeError else Inl NotImplementedError)"

function get_primitive_type_name :: "property \<Rightarrow> error + string"
  and get_tuple_type_name :: "property \<Rightarrow> error + string"
  and get_type_name :: "property \<Rightarrow> error + string"
where
  "get_primitive_type_name prop =
     (if \<not> is_primitive_type prop then Inl AssertionError
      else if p_type prop = Some ''string'' then Inr ''string''
      else if p_type prop = Some ''boolean'' then Inr ''bool''
      else if p_type prop = Some ''integer'' then Inr ''Integer''
      else if p_type prop = Some ''number'' then Inr ''Number''
      else if is_tuple prop then get_tuple_type_name prop
      else (case is_array prop of
              Inl e \<Rightarrow> Inl e
            | Inr False \<Rightarrow> Inl NotImplementedError
            | Inr True \<Rightarrow>
                (case p_items prop of
                   Some (ItemsDict aitem) \<Rightarrow>
                     bind_err
                       (if is_primitive_type aitem then get_primitive_type_name aitem
                        else if is_ref aitem then get_ref_type_name aitem
                        else if is_custom_type aitem then get_custom_type_name aitem
                        else Inl NotImplementedError)
                       (\<lambda>atype. Inr (''repeated '' @ atype))
                 | _ \<Rightarrow> Inl KeyError)))"
| "get_tuple_type_name prop =
     (if \<not> is_tuple prop then Inl AssertionError
      else (case p_items prop of
              None \<Rightarrow> Inl KeyError
            | Some (ItemsList xs) \<Rightarrow>
                bind_err (sequence_err (map get_type_name xs))
                  (\<lambda>names. Inr ((if p_maxItems prop = Some 2 then ''Pair'' else ''Tuple'')
                                   @ ''_'' @ join ''_'' names))
            | Some (ItemsDict d) \<Rightarrow>
                bind_err (sequence_err (map get_type_name_of_key (keys d)))
                  (\<lambda>names. Inr ((if p_maxItems prop = Some 2 then ''Pair'' else ''Tuple'')
                                   @ ''_'' @ join ''_'' names))))"
| "get_type_name prop =
     (if is_primitive_type prop then get_primitive_type_name prop
      else if is_custom_type prop then get_custom_type_name prop
      else if is_ref prop then get_ref_type_name prop
      else Inl NotImplementedError)"
  by pat_completeness auto
termination
proof -
  have dict: "size d < size p" if "p_items p = Some (ItemsDict d)" for p d
    using that by (cases p) simp
  have lst: "size x < size p" if "p_items p = Some (ItemsList xs)" and "x \<in> set xs" for p xs x
  proof -
    have "size x \<le> size_list size xs"
      using that(2) by (induction xs) auto
    moreover have "size_list size xs < size p"
      using that(1) by (cases p) simp
    ultimately show ?thesis by simp
  qed
  show ?thesis
    by (relation "measure (\<lambda>x. case x of
           Inl p \<Rightarrow> 3 * size p + 1
         | Inr (Inl p) \<Rightarrow> 3 * size p
         | Inr (Inr p) \<Rightarrow> 3 * size p + 2)")
       (auto dest: dict lst)
qed

declare get_primitive_type_name.simps [simp del]
declare get_tuple_type_name.simps [simp del]
declare get_type_name.simps [simp del]

subsection \<open>Property order\<close>

definition sanitize_prop_name :: "string \<Rightarrow> string" where
  "sanitize_prop_name name =
     replace CHR '' '' CHR ''_''
       (replace CHR ''/'' CHR ''_'' (replace CHR ''&'' CHR ''a'' (replace CHR ''-'' CHR ''_'' name)))"

text \<open>
  The three modules searched for the class of a definition are not part of the
  translator; they are a parameter. Each maps an attribute name to the parameter names of
  the class's signature, in declaration order; an absent name is the \<open>AttributeError\<close>
  of \<open>getattr\<close>.
\<close>

record capa_modules =
  result_document :: "string \<rightharpoonup> string list"
  freeze :: "string \<rightharpoonup> string list"
  freeze_features :: "string \<rightharpoonup> string list"

definition find_capa_class :: "capa_modules \<Rightarrow> string \<Rightarrow> error + string list" where
  "find_capa_class mods name =
     (case result_document mods name of
        Some c \<Rightarrow> Inr c
      | None \<Rightarrow>
          (case freeze mods name of
             Some c \<Rightarrow> Inr c
           | None \<Rightarrow>
               (case freeze_features mods name of
                  Some c \<Rightarrow> Inr c
                | None \<Rightarrow> Inl NotImplementedError)))"

definition get_property_index :: "string list \<Rightarrow> string list \<Rightarrow> string \<Rightarrow> nat" where
  "get_property_index property_order properties name =
     (if sanitize_prop_name name \<in> set property_order
      then index property_order (sanitize_prop_name name)
      else length properties + index properties name)"

text \<open>\<open>sorted\<close> is a stable sort by the key, as \<open>sort_key\<close> is.\<close>

definition enum_properties :: "capa_modules \<Rightarrow> schema_def \<Rightarrow> error + (string \<times> property) list" where
  "enum_properties mods message =
     (case d_title message of
        None \<Rightarrow> Inl KeyError
      | Some title \<Rightarrow>
          bind_err (find_capa_class mods title)
            (\<lambda>property_order.
               case d_properties message of
                 None \<Rightarrow> Inl KeyError
               | Some props \<Rightarrow>
                   Inr (sort_key (\<lambda>p. get_property_index property_order (map fst props) (fst p))
                          props)))"

subsection \<open>Deferred types\<close>

datatype deferred_type =
    DeferredArrayType string property
  | DeferredTupleType string int items

text \<open>
  \<open>deferred_types[k] = v\<close> on a dictionary kept as the list of its entries in insertion
  order: an existing key keeps its place and takes the new value.
\<close>

fun dict_set :: "('k \<times> 'v) list \<Rightarrow> 'k \<Rightarrow> 'v \<Rightarrow> ('k \<times> 'v) list" where
  "dict_set [] k v = [(k, v)]"
| "dict_set ((k', v') # kvs) k v =
     (if k' = k then (k, v) # kvs else (k', v') # dict_set kvs k v)"

text \<open>\<open>DeferredTupleType(name, prop["minItems"], prop["items"])\<close>.\<close>

definition deferred_tuple :: "string \<Rightarrow> property \<Rightarrow> error + deferred_type" where
  "deferred_tuple name prop =
     (case p_minItems prop of
        None \<Rightarrow> Inl KeyError
      | Some mn \<Rightarrow>
          (case p_items prop of
             None \<Rightarrow> Inl KeyError
           | Some its \<Rightarrow> Inr (DeferredTupleType name mn its)))"

subsection \<open>Message emission\<close>

text \<open>
  The state of the loop over the properties of a message: the text written so far, the
  deferred types, and the next value of the iterator \<open>counter\<close>.
\<close>

record emit_state =
  out :: "line list"
  deferred_types :: "(string \<times> deferred_type) list"
  counter :: nat

text \<open>One alternative of a union: the body of the loop over \<open>prop["anyOf"]\<close>.\<close>

definition emit_alternative :: "emit_state \<Rightarrow> nat \<Rightarrow> nat \<Rightarrow> property \<Rightarrow> error + emit_state" where
  "emit_alternative st i j alt =
     (if is_ref alt then
        bind_err (get_ref_type_name alt)
          (\<lambda>ptype. Inr (st\<lparr>out := out st @ [OneofField ptype j i]\<rparr>))
      else if is_primitive_type alt then
        bind_err (get_primitive_type_name alt)
          (\<lambda>ptype.
             if is_tuple alt then
               bind_err (deferred_tuple ptype alt)
                 (\<lambda>d. Inr (st\<lparr>out := out st @ [OneofField ptype j i],
                              deferred_types := dict_set (deferred_types st) ptype d\<rparr>))
             else Inr (st\<lparr>out := out st @ [OneofField ptype j i]\<rparr>))
      else Inl NotImplementedError)"

text \<open>
  The loop over the alternatives: alternative \<open>j\<close> is written with the number \<open>i\<close>, and
  \<open>i = next(counter)\<close> follows every alternative.
\<close>

fun emit_alternatives :: "emit_state \<Rightarrow> nat \<Rightarrow> nat \<Rightarrow> property list \<Rightarrow> error + emit_state" where
  "emit_alternatives st i j [] = Inr st"
| "emit_alternatives st i j (alt # alts) =
     (case emit_alternative st i j alt of
        Inl e \<Rightarrow> Inl e
      | Inr st' \<Rightarrow> emit_alternatives (st'\<lparr>counter := counter st' + 1\<rparr>) (counter st') (j + 1) alts)"

text \<open>One property: the body of the loop of \<open>emit_proto_message\<close>.\<close>

definition emit_property :: "emit_state \<Rightarrow> string \<times> property \<Rightarrow> error + emit_state" where
  "emit_property st0 p =
     (let raw_name = fst p; prop = snd p;
          i = counter st0;
          st = st0\<lparr>counter := counter st0 + 1\<rparr>;
          name = sanitize_prop_name raw_name
      in
      if is_ref prop then
        bind_err (get_ref_type_name prop)
          (\<lambda>ptype. Inr (st\<lparr>out := out st @ [MessageField ptype name i]\<rparr>))
      else if is_primitive_type prop then
        bind_err (get_primitive_type_name prop)
          (\<lambda>ptype.
             let st1 = st\<lparr>out := out st @ [MessageField ptype name i]\<rparr> in
             if is_tuple prop then
               bind_err (deferred_tuple ptype prop)
                 (\<lambda>d. Inr (st1\<lparr>deferred_types := dict_set (deferred_types st1) ptype d\<rparr>))
             else
               bind_err (is_array prop)
                 (\<lambda>arr.
                    if arr then
                      (case p_items prop of
                         Some (ItemsDict aitem) \<Rightarrow>
                           if is_tuple aitem then
                             bind_err (get_tuple_type_name aitem)
                               (\<lambda>atype.
                                  bind_err (deferred_tuple atype aitem)
                                    (\<lambda>d. Inr (st1\<lparr>deferred_types :=
                                                      dict_set (deferred_types st1) atype d\<rparr>)))
                           else Inr st1
                       | _ \<Rightarrow> Inl KeyError)
                    else Inr st1))
      else if is_custom_type prop then
        bind_err (get_custom_type_name prop)
          (\<lambda>ptype. Inr (st\<lparr>out := out st @ [MessageField ptype name i]\<rparr>))
      else if is_union prop then
        (case p_anyOf prop of
           None \<Rightarrow> Inl KeyError
         | Some alts \<Rightarrow>
             bind_err (emit_alternatives (st\<lparr>out := out st @ [OneofOpen name]\<rparr>) i 0 alts)
               (\<lambda>st2. Inr (st2\<lparr>out := out st2 @ [OneofClose]\<rparr>)))
      else if is_map prop then
        (case p_additionalProperties prop of
           None \<Rightarrow> Inl KeyError
         | Some ap \<Rightarrow>
             bind_err (is_array ap)
               (\<lambda>arr.
                  if arr then
                    (case p_items ap of
                       Some (ItemsDict item_def) \<Rightarrow>
                         bind_err (get_type_name item_def)
                           (\<lambda>t. let vtype = ''Array_'' @ t in
                                Inr (st\<lparr>deferred_types :=
                                           dict_set (deferred_types st) vtype
                                             (DeferredArrayType vtype item_def),
                                         out := out st @ [MapField vtype name i]\<rparr>))
                     | _ \<Rightarrow> Inl KeyError)
                  else
                    bind_err (get_type_name ap)
                      (\<lambda>vtype. Inr (st\<lparr>out := out st @ [MapField vtype name i]\<rparr>))))
      else Inl ValueError_unexpected_type)"

fun emit_properties :: "emit_state \<Rightarrow> (string \<times> property) list \<Rightarrow> error + emit_state" where
  "emit_properties st [] = Inr st"
| "emit_properties st (p # ps) =
     (case emit_property st p of Inl e \<Rightarrow> Inl e | Inr st' \<Rightarrow> emit_properties st' ps)"

text \<open>
  \<open>counter = iter(range(1, sys.maxsize))\<close>: the first \<open>next(counter)\<close> is 1. The end of
  the range, after \<open>sys.maxsize - 1\<close> values, is not modelled.
\<close>

definition emit_proto_message ::
  "capa_modules \<Rightarrow> line list \<Rightarrow> (string \<times> deferred_type) list \<Rightarrow> schema_def
   \<Rightarrow> error + line list \<times> (string \<times> deferred_type) list" where
  "emit_proto_message mods out0 deferred0 message =
     (case d_title message of
        None \<Rightarrow> Inl KeyError
      | Some title \<Rightarrow>
          bind_err (enum_properties mods message)
            (\<lambda>props.
               bind_err
                 (emit_properties
                    \<lparr>out = out0 @ [MessageOpen title], deferred_types = deferred0, counter = 1\<rparr>
                    props)
                 (\<lambda>st. Inr (out st @ [Close, Blank], deferred_types st))))"

subsection \<open>The driver\<close>

definition emit_proto_entry ::
  "capa_modules \<Rightarrow> line list \<Rightarrow> (string \<times> deferred_type) list \<Rightarrow> schema \<Rightarrow> string
   \<Rightarrow> error + line list \<times> (string \<times> deferred_type) list" where
  "emit_proto_entry mods out0 deferred0 sch name =
     (if take 14 name \<noteq> ''#/definitions/'' then Inl ValueError_unexpected_name
      else
        let title = drop 14 name in
        case map_of (definitions sch) title of
          None \<Rightarrow> Inl KeyError
        | Some def \<Rightarrow>
            (case d_title def of
               None \<Rightarrow> Inl KeyError
             | Some t \<Rightarrow>
                 if t \<noteq> title then Inl ValueError_title_mismatch
                 else (case d_type def of
                         None \<Rightarrow> Inl KeyError
                       | Some ty \<Rightarrow>
                           if ty = ''string'' \<and> d_enum def \<noteq> None then
                             bind_err (emit_proto_enum out0 def) (\<lambda>out1. Inr (out1, deferred0))
                           else if ty = ''object'' then
                             emit_proto_message mods out0 deferred0 def
                           else Inl NotImplementedError)))"

fun emit_entries ::
  "capa_modules \<Rightarrow> schema \<Rightarrow> line list \<times> (string \<times> deferred_type) list \<Rightarrow> string list
   \<Rightarrow> error + line list \<times> (string \<times> deferred_type) list" where
  "emit_entries mods sch s [] = Inr s"
| "emit_entries mods sch s (name # names) =
     (case emit_proto_entry mods (fst s) (snd s) sch (''#/definitions/'' @ name) of
        Inl e \<Rightarrow> Inl e
      | Inr s' \<Rightarrow> emit_entries mods sch s' names)"

text \<open>One deferred type: the body of the second loop of the driver.\<close>

definition emit_deferred :: "line list \<Rightarrow> string \<times> deferred_type \<Rightarrow> error + line list" where
  "emit_deferred out0 entry =
     (case snd entry of
        DeferredArrayType n item \<Rightarrow>
          bind_err (get_type_name item) (\<lambda>vtype. Inr (out0 @ [ArrayWrapper (fst entry) vtype]))
      | DeferredTupleType n c its \<Rightarrow>
          bind_err
            (case its of
               ItemsList xs \<Rightarrow> sequence_err (map get_type_name xs)
             | ItemsDict d \<Rightarrow> sequence_err (map get_type_name_of_key (keys d)))
            (\<lambda>vtypes.
               Inr (out0 @ [TupleOpen (fst entry)]
                    @ map (\<lambda>(i, vtype). TupleField vtype i (i + 1)) (enumerate_from0 vtypes)
                    @ [TupleClose])))"

fun emit_deferreds :: "line list \<Rightarrow> (string \<times> deferred_type) list \<Rightarrow> error + line list" where
  "emit_deferreds out0 [] = Inr out0"
| "emit_deferreds out0 (d # ds) =
     (case emit_deferred out0 d of Inl e \<Rightarrow> Inl e | Inr out1 \<Rightarrow> emit_deferreds out1 ds)"

definition header :: "line list" where
  "header =
     [Text ''// Generated by the capa.render.proto translator. DO NOT EDIT!'',
      Text (''syntax = '' @ [CHR 0x22] @ ''proto3'' @ [CHR 0x22] @ '';''),
      Blank]"

definition helpers :: "line list" where
  "helpers =
     [Text (''message Integer { oneof value { uint64 u = 1; int64 i = 2; } }'' @ [CHR 0x0A]),
      Text (''message Number { oneof value { uint64 u = 1; int64 i = 2; double f = 3; } }''
            @ [CHR 0x0A])]"

text \<open>
  The document before rendering: the header, the definitions by sorted key, the deferred
  types sorted by name, the two helper types.
\<close>

definition generate_lines :: "capa_modules \<Rightarrow> schema \<Rightarrow> error + line list" where
  "generate_lines mods sch =
     bind_err (emit_entries mods sch (header, []) (sort (map fst (definitions sch))))
       (\<lambda>s. bind_err (emit_deferreds (fst s) (sort_key fst (snd s)))
               (\<lambda>out1. Inr (out1 @ helpers)))"

definition generate_proto_from_pydantic :: "capa_modules \<Rightarrow> schema \<Rightarrow> error + string list" where
  "generate_proto_from_pydantic mods sch =
     bind_err (generate_lines mods sch) (\<lambda>ls. Inr (map render_line ls))"

subsection \<open>Property order and shapes, as the specification words them\<close>

text \<open>
  A property is resolved when its normalized name occurs in the canonical order of the
  definition's class.
\<close>

definition resolved :: "string list \<Rightarrow> string \<times> property \<Rightarrow> bool" where
  "resolved property_order p = (sanitize_prop_name (fst p) \<in> set property_order)"

text \<open>A primitive scalar: a description whose \<open>type\<close> is one of the four scalar types.\<close>

definition is_scalar :: "property \<Rightarrow> bool" where
  "is_scalar prop =
     (p_type prop = Some ''string'' \<or> p_type prop = Some ''boolean''
      \<or> p_type prop = Some ''integer'' \<or> p_type prop = Some ''number'')"

text \<open>
  A property is emitted as a union when no earlier branch of the emitter takes it: it is
  no reference, neither a primitive type nor a custom object, and has \<open>anyOf\<close>.
\<close>

definition is_union_property :: "property \<Rightarrow> bool" where
  "is_union_property prop =
     (\<not> is_ref prop \<and> \<not> is_primitive_type prop \<and> \<not> is_custom_type prop \<and> is_union prop)"

definition alternatives :: "property \<Rightarrow> property list" where
  "alternatives prop = (case p_anyOf prop of None \<Rightarrow> [] | Some alts \<Rightarrow> alts)"

subsection \<open>Field numbers, as the specification words them\<close>

text \<open>The field number written on a line of a message, if the line carries one.\<close>

fun line_number :: "line \<Rightarrow> nat option" where
  "line_number (MessageField ptype name i) = Some i"
| "line_number (OneofField ptype j i) = Some i"
| "line_number (MapField vtype name i) = Some i"
| "line_number l = None"

fun line_numbers :: "line list \<Rightarrow> nat list" where
  "line_numbers [] = []"
| "line_numbers (l # ls) =
     (case line_number l of None \<Rightarrow> line_numbers ls | Some i \<Rightarrow> i # line_numbers ls)"

text \<open>
  The numbers a list of properties uses when the counter stands at \<open>c\<close>: one for a
  property that is no union; for a union, one for each of its \<open>K\<close> alternatives, after
  which the counter has advanced by \<open>K + 1\<close>.
\<close>

fun numbers_from :: "nat \<Rightarrow> property list \<Rightarrow> nat list" where
  "numbers_from c [] = []"
| "numbers_from c (p # ps) =
     (if is_union_property p
      then [c ..< c + length (alternatives p)] @ numbers_from (c + length (alternatives p) + 1) ps
      else c # numbers_from (c + 1) ps)"

text \<open>The lines written between the opening and the closing line of a message.\<close>

fun is_field_line :: "line \<Rightarrow> bool" where
  "is_field_line (MessageField ptype name i) = True"
| "is_field_line (OneofOpen name) = True"
| "is_field_line (OneofField ptype j i) = True"
| "is_field_line OneofClose = True"
| "is_field_line (MapField vtype name i) = True"
| "is_field_line l = False"

subsection \<open>The parts of the document\<close>

text \<open>The lines of the primary definitions: enums and messages.\<close>

fun is_primary_line :: "line \<Rightarrow> bool" where
  "is_primary_line (EnumOpen title) = True"
| "is_primary_line (EnumValue name n) = True"
| "is_primary_line (MessageOpen title) = True"
| "is_primary_line Close = True"
| "is_primary_line Blank = True"
| "is_primary_line l = is_field_line l"

text \<open>The title on the opening line of a primary definition.\<close>

fun opened_title :: "line \<Rightarrow> string option" where
  "opened_title (EnumOpen title) = Some title"
| "opened_title (MessageOpen title) = Some title"
| "opened_title l = None"

fun opened_titles :: "line list \<Rightarrow> string list" where
  "opened_titles [] = []"
| "opened_titles (l # ls) =
     (case opened_title l of None \<Rightarrow> opened_titles ls | Some t \<Rightarrow> t # opened_titles ls)"

text \<open>The lines of the deferred types, and the name a deferred definition opens with.\<close>

fun is_deferred_line :: "line \<Rightarrow> bool" where
  "is_deferred_line (ArrayWrapper name vtype) = True"
| "is_deferred_line (TupleOpen name) = True"
| "is_deferred_line (TupleField vtype i n) = True"
| "is_deferred_line TupleClose = True"
| "is_deferred_line l = False"

fun deferred_name :: "line \<Rightarrow> string option" where
  "deferred_name (ArrayWrapper name vtype) = Some name"
| "deferred_name (TupleOpen name) = Some name"
| "deferred_name l = None"

fun deferred_names :: "line list \<Rightarrow> string list" where
  "deferred_names [] = []"
| "deferred_names (l # ls) =
     (case deferred_name l of None \<Rightarrow> deferred_names ls | Some n \<Rightarrow> n # deferred_names ls)"

text \<open>The lines one deferred type is written as, when it is written.\<close>

definition deferred_block :: "string \<times> deferred_type \<Rightarrow> line list" where
  "deferred_block entry = (case emit_deferred [] entry of Inl e \<Rightarrow> [] | Inr ls \<Rightarrow> ls)"






subsection \<open>The registry of deferred types\<close>

text \<open>
  What the emitter stores under a name: an array wrapper under \<open>Array_\<close> followed by the
  type name of its item, a tuple wrapper under a name that does not start with \<open>Array_\<close>.
\<close>

definition entry_ok :: "string \<Rightarrow> deferred_type \<Rightarrow> bool" where
  "entry_ok k v =
     (case v of
        DeferredArrayType n item \<Rightarrow> (\<exists>t. get_type_name item = Inr t \<and> k = ''Array_'' @ t)
      | DeferredTupleType n c its \<Rightarrow> take 6 k \<noteq> ''Array_'')"

definition reg_ok :: "(string \<times> deferred_type) list \<Rightarrow> bool" where
  "reg_ok r = (distinct (map fst r) \<and> (\<forall>(k, v) \<in> set r. entry_ok k v))"

text \<open>A step of the emitter keeps the registered names and a well-formed registry.\<close>

definition reg_step ::
  "(string \<times> deferred_type) list \<Rightarrow> (string \<times> deferred_type) list \<Rightarrow> bool" where
  "reg_step r r' = (fst ` set r \<subseteq> fst ` set r' \<and> (reg_ok r \<longrightarrow> reg_ok r'))"

subsection \<open>Example schemas\<close>

text \<open>Descriptions as pydantic writes them, used to evaluate the translator.\<close>

definition ref_to :: "string \<Rightarrow> property" where
  "ref_to t = Prop (Some (''#/definitions/'' @ t)) None None None None None None None"

definition of_type :: "string \<Rightarrow> property" where
  "of_type ty = Prop None (Some ty) None None None None None None"

definition object_titled :: "string \<Rightarrow> property" where
  "object_titled t = Prop None (Some ''object'') (Some t) None None None None None"

definition array_of :: "property \<Rightarrow> property" where
  "array_of item =
     Prop None (Some ''array'') None None None (Some (ItemsDict item)) None None"

definition tuple_of :: "property list \<Rightarrow> property" where
  "tuple_of xs =
     Prop None (Some ''array'') None (Some (int (length xs))) (Some (int (length xs)))
       (Some (ItemsList xs)) None None"

definition map_to :: "property \<Rightarrow> property" where
  "map_to v = Prop None (Some ''object'') None None None None (Some v) None"

definition union_of :: "property list \<Rightarrow> property" where
  "union_of alts = Prop None None None None None None None (Some alts)"

definition enum_def :: "string \<Rightarrow> string list \<Rightarrow> schema_def" where
  "enum_def t vs =
     \<lparr>d_title = Some t, d_type = Some ''string'', d_enum = Some vs, d_properties = None\<rparr>"

definition object_def :: "string \<Rightarrow> (string \<times> property) list \<Rightarrow> schema_def" where
  "object_def t props =
     \<lparr>d_title = Some t, d_type = Some ''object'', d_enum = None, d_properties = Some props\<rparr>"

text \<open>Modules in which the only class is \<open>cls\<close>, in \<open>result_document\<close>.\<close>

definition one_class :: "string \<Rightarrow> string list \<Rightarrow> capa_modules" where
  "one_class cls params =
     \<lparr>result_document = [cls \<mapsto> params], freeze = Map.empty, freeze_features = Map.empty\<rparr>"

text \<open>The modules without any class.\<close>

definition no_classes :: capa_modules where
  "no_classes = \<lparr>result_document = Map.empty, freeze = Map.empty, freeze_features = Map.empty\<rparr>"

text \<open>A message with two scalars, a union of three alternatives, and one more scalar.\<close>

definition feature_message :: schema_def where
  "feature_message =
     object_def ''Feature''
       [(''type'', of_type ''string''),
        (''count'', of_type ''integer''),
        (''value'', union_of [of_type ''string'', of_type ''integer'', ref_to ''Address'']),
        (''description'', of_type ''string'')]"

definition feature_class :: capa_modules where
  "feature_class = one_class ''Feature'' [''type'', ''count'', ''value'', ''description'']"

text \<open>The state in which the first property of a message is emitted.\<close>

definition first_state :: "line list \<Rightarrow> emit_state" where
  "first_state ls = \<lparr>out = ls, deferred_types = [], counter = 1\<rparr>"








text \<open>
  A schema with an enum and a message whose property \<open>captures\<close> maps to arrays of
  addresses, and the lines of its document.
\<close>

definition match_def :: schema_def where
  "match_def =
     object_def ''Match''
       [(''success'', of_type ''boolean''),
        (''captures'', map_to (array_of (ref_to ''Address'')))]"

definition match_class :: capa_modules where
  "match_class = one_class ''Match'' [''success'', ''captures'']"

definition captures_schema :: schema where
  "captures_schema =
     \<lparr>definitions = [(''Match'', match_def), (''Address'', enum_def ''Address'' [''absolute''])]\<rparr>"

definition captures_lines :: "line list" where
  "captures_lines =
     header
     @ [EnumOpen ''Address'', EnumValue ''ADDRESS_UNSPECIFIED'' 0,
        EnumValue ''ADDRESS_ABSOLUTE'' 1, Close, Blank,
        MessageOpen ''Match'', MessageField ''bool'' ''success'' 1,
        MapField ''Array_Address'' ''captures'' 2, Close, Blank]
     @ [ArrayWrapper ''Array_Address'' ''Address'']
     @ helpers"








text \<open>
  Two pairs with different element types whose wrapper names coincide:
  \<open>Pair_A_B_C\<close> from \<open>(A_B, C)\<close> and from \<open>(A, B_C)\<close>.
\<close>

definition pair_first :: property where
  "pair_first = tuple_of [ref_to ''A_B'', ref_to ''C'']"

definition pair_second :: property where
  "pair_second = tuple_of [ref_to ''A'', ref_to ''B_C'']"

text \<open>
  Two messages, each with a pair of the element types \<open>Address\<close> and \<open>Match\<close>; the second
  pair names its second element by an inline object titled \<open>Match\<close>.
\<close>

definition pair_by_refs :: property where
  "pair_by_refs = tuple_of [ref_to ''Address'', ref_to ''Match'']"

definition pair_by_title :: property where
  "pair_by_title = tuple_of [ref_to ''Address'', object_titled ''Match'']"

definition pairs_schema :: schema where
  "pairs_schema =
     \<lparr>definitions = [(''Rule'', object_def ''Rule'' [(''span'', pair_by_title)]),
                      (''Hit'', object_def ''Hit'' [(''location'', pair_by_refs)])]\<rparr>"

definition pairs_classes :: capa_modules where
  "pairs_classes =
     \<lparr>result_document = [''Rule'' \<mapsto> [''span''], ''Hit'' \<mapsto> [''location'']],
      freeze = Map.empty, freeze_features = Map.empty\<rparr>"

definition pairs_lines :: "line list" where
  "pairs_lines =
     header
     @ [MessageOpen ''Hit'', MessageField ''Pair_Address_Match'' ''location'' 1, Close, Blank,
        MessageOpen ''Rule'', MessageField ''Pair_Address_Match'' ''span'' 1, Close, Blank]
     @ [TupleOpen ''Pair_Address_Match'', TupleField ''Address'' 0 1, TupleField ''Match'' 1 2,
        TupleClose]
     @ helpers"

section \<open>Properties\<close>

subsection \<open>Enum emission\<close>

lemma upper_unspecified: "upper ''unspecified'' = ''UNSPECIFIED''"
  by (simp add: upper_def upper_char_def lower_letters_def upper_letters_def)

text \<open>
  C6 (as the code has it). For a string enum with title \<open>T\<close> and \<open>N\<close> declared values,
  the emitted enum has exactly \<open>N + 1\<close> values between its opening and closing lines:
  value 0 is the sentinel, and values \<open>1..N\<close> are the declared values in declared order,
  upper-cased and with spaces replaced by underscores. The prefix of every value name is
  the upper-cased title, \<open>T.upper()\<close>, not the title itself.
\<close>

theorem emit_proto_enum_values:
  assumes "d_title enum = Some T" and "d_enum enum = Some vs"
  shows "\<exists>ls. emit_proto_enum out0 enum = Inr (out0 @ [EnumOpen T] @ ls @ [Close, Blank])
      \<and> length ls = length vs + 1
      \<and> ls ! 0 = EnumValue (upper T @ ''_UNSPECIFIED'') 0
      \<and> (\<forall>i < length vs.
            ls ! (i + 1) =
              EnumValue (upper T @ ''_'' @ replace CHR '' '' CHR ''_'' (upper (vs ! i))) (i + 1))"
proof -
  let ?ls = "EnumValue (render_value (upper T) ''unspecified'') 0
             # map (\<lambda>(i, v). EnumValue (render_value (upper T) v) (i + 1)) (enumerate_from0 vs)"
  have "emit_proto_enum out0 enum = Inr (out0 @ [EnumOpen T] @ ?ls @ [Close, Blank])"
    using assms by (simp add: emit_proto_enum_def)
  moreover have "length ?ls = length vs + 1"
    by (simp add: enumerate_from0_def)
  moreover have "?ls ! 0 = EnumValue (upper T @ ''_UNSPECIFIED'') 0"
    by (simp add: render_value_def upper_unspecified replace_def)
  moreover have "\<forall>i < length vs.
        ?ls ! (i + 1) =
          EnumValue (upper T @ ''_'' @ replace CHR '' '' CHR ''_'' (upper (vs ! i))) (i + 1)"
    by (simp add: enumerate_from0_def render_value_def)
  ultimately show ?thesis by blast
qed

theorem emit_proto_enum_values_witness:
  "d_title (enum_def ''Flavor'' [''static'', ''dynamic'']) = Some ''Flavor''
   \<and> d_enum (enum_def ''Flavor'' [''static'', ''dynamic'']) = Some [''static'', ''dynamic'']
   \<and> (\<exists>ls. emit_proto_enum [] (enum_def ''Flavor'' [''static'', ''dynamic''])
             = Inr ([] @ [EnumOpen ''Flavor''] @ ls @ [Close, Blank])
         \<and> length ls = length [''static'', ''dynamic''] + 1
         \<and> ls ! 0 = EnumValue (upper ''Flavor'' @ ''_UNSPECIFIED'') 0)"
  using emit_proto_enum_values [of "enum_def ''Flavor'' [''static'', ''dynamic'']" "''Flavor''"
      "[''static'', ''dynamic'']" "[]"]
  by (simp add: enum_def_def) blast

text \<open>
  The enum \<open>Flavor\<close> with the values \<open>static\<close> and \<open>file scope\<close>: the sentinel is
  \<open>FLAVOR_UNSPECIFIED\<close>, which is not \<open>Flavor_UNSPECIFIED\<close>.
\<close>

theorem emit_proto_enum_title_counterexample:
  "emit_proto_enum [] (enum_def ''Flavor'' [''static'', ''file scope''])
     = Inr [EnumOpen ''Flavor'', EnumValue ''FLAVOR_UNSPECIFIED'' 0, EnumValue ''FLAVOR_STATIC'' 1,
            EnumValue ''FLAVOR_FILE_SCOPE'' 2, Close, Blank]
   \<and> ''FLAVOR_UNSPECIFIED'' \<noteq> ''Flavor'' @ ''_UNSPECIFIED''
   \<and> ''FLAVOR_STATIC'' \<noteq> ''Flavor'' @ ''_STATIC''"
  by (simp add: emit_proto_enum_def enum_def_def render_value_def upper_def upper_char_def
      lower_letters_def upper_letters_def replace_def enumerate_from0_def)

subsection \<open>Reaching a definition during a run\<close>

lemma drop_pointer_prefix [simp]: "drop 14 (''#/definitions/'' @ n) = n"
  by simp

lemma take_pointer_prefix [simp]: "take 14 (''#/definitions/'' @ n) = ''#/definitions/''"
  by simp

lemma emit_entries_reaches:
  "emit_entries mods sch s names = Inr s' \<Longrightarrow> n \<in> set names \<Longrightarrow>
     \<exists>sa sb. emit_proto_entry mods (fst sa) (snd sa) sch (''#/definitions/'' @ n) = Inr sb"
proof (induction names arbitrary: s)
  case Nil
  then show ?case by simp
next
  case (Cons a names)
  from Cons.prems(1) obtain s1 where
    a: "emit_proto_entry mods (fst s) (snd s) sch (''#/definitions/'' @ a) = Inr s1"
    and rest: "emit_entries mods sch s1 names = Inr s'"
    by (auto split: sum.splits)
  show ?case
  proof (cases "n = a")
    case True
    with a show ?thesis by blast
  next
    case False
    with Cons.prems(2) have "n \<in> set names" by simp
    from Cons.IH [OF rest this] show ?thesis .
  qed
qed

lemma generate_lines_reaches:
  assumes "generate_lines mods sch = Inr ls" and "map_of (definitions sch) n = Some d"
  shows "\<exists>sa sb. emit_proto_entry mods (fst sa) (snd sa) sch (''#/definitions/'' @ n) = Inr sb"
proof -
  from assms(1) obtain s where
    "emit_entries mods sch (header, []) (sort (map fst (definitions sch))) = Inr s"
    by (auto simp: generate_lines_def bind_err_def split: sum.splits)
  moreover have "n \<in> set (sort (map fst (definitions sch)))"
    using assms(2) by (auto dest: map_of_SomeD intro: rev_image_eqI)
  ultimately show ?thesis by (rule emit_entries_reaches)
qed

lemma generate_fails_if_lines_fail:
  "(\<And>ls. generate_lines mods sch \<noteq> Inr ls) \<Longrightarrow> \<exists>e. generate_proto_from_pydantic mods sch = Inl e"
  by (cases "generate_lines mods sch") (auto simp: generate_proto_from_pydantic_def bind_err_def)

subsection \<open>A title without a class\<close>

lemma find_capa_class_absent:
  "result_document mods T = None \<Longrightarrow> freeze mods T = None \<Longrightarrow> freeze_features mods T = None
   \<Longrightarrow> find_capa_class mods T = Inl NotImplementedError"
  by (simp add: find_capa_class_def)

text \<open>
  C2 (as the code has it). For an object definition whose title is found in none of the
  three modules, \<open>_find_capa_class\<close> raises \<open>NotImplementedError\<close>: the
  property order is not resolved, no property is emitted, the emission of the definition
  fails, and a generation run over a schema holding the definition fails.
\<close>

theorem absent_title_fails:
  assumes "result_document mods T = None" and "freeze mods T = None"
    and "freeze_features mods T = None"
    and "d_title message = Some T"
  shows "enum_properties mods message = Inl NotImplementedError
    \<and> emit_proto_message mods out0 deferred0 message = Inl NotImplementedError
    \<and> (map_of (definitions sch) T = Some message \<and> d_type message = Some ''object''
         \<longrightarrow> (\<exists>e. generate_proto_from_pydantic mods sch = Inl e))"
proof -
  have cls: "find_capa_class mods T = Inl NotImplementedError"
    using assms(1-3) by (rule find_capa_class_absent)
  have ep: "enum_properties mods message = Inl NotImplementedError"
    using cls assms(4) by (simp add: enum_properties_def bind_err_def)
  have em: "emit_proto_message mods o1 d1 message = Inl NotImplementedError" for o1 d1
    using ep assms(4) by (simp add: emit_proto_message_def bind_err_def)
  have run: "\<exists>e. generate_proto_from_pydantic mods sch = Inl e"
    if "map_of (definitions sch) T = Some message" and "d_type message = Some ''object''"
  proof (rule generate_fails_if_lines_fail)
    fix ls
    show "generate_lines mods sch \<noteq> Inr ls"
    proof
      assume "generate_lines mods sch = Inr ls"
      from generate_lines_reaches [OF this that(1)] obtain sa sb where
        "emit_proto_entry mods (fst sa) (snd sa) sch (''#/definitions/'' @ T) = Inr sb"
        by blast
      then show False
        using that assms(4) em by (simp add: emit_proto_entry_def)
    qed
  qed
  show ?thesis using ep em run by blast
qed

theorem absent_title_fails_witness:
  "result_document no_classes ''Sample'' = None \<and> freeze no_classes ''Sample'' = None
   \<and> freeze_features no_classes ''Sample'' = None
   \<and> d_title (object_def ''Sample'' [(''md5'', of_type ''string'')]) = Some ''Sample''
   \<and> map_of (definitions \<lparr>definitions = [(''Sample'', object_def ''Sample'' [(''md5'', of_type ''string'')])]\<rparr>) ''Sample''
       = Some (object_def ''Sample'' [(''md5'', of_type ''string'')])
   \<and> d_type (object_def ''Sample'' [(''md5'', of_type ''string'')]) = Some ''object''
   \<and> enum_properties no_classes (object_def ''Sample'' [(''md5'', of_type ''string'')])
       = Inl NotImplementedError
   \<and> (\<exists>e. generate_proto_from_pydantic no_classes
         \<lparr>definitions = [(''Sample'', object_def ''Sample'' [(''md5'', of_type ''string'')])]\<rparr> = Inl e)"
  using absent_title_fails [of no_classes "''Sample''"
      "object_def ''Sample'' [(''md5'', of_type ''string'')]" "[]" "[]"
      "\<lparr>definitions = [(''Sample'', object_def ''Sample'' [(''md5'', of_type ''string'')])]\<rparr>"]
  by (simp add: no_classes_def object_def_def)

text \<open>
  The definition \<open>Sample\<close> with no class anywhere: the resolution fails, and so does the
  run.
\<close>

theorem absent_title_counterexample:
  "enum_properties no_classes (object_def ''Sample'' [(''md5'', of_type ''string'')])
     = Inl NotImplementedError
   \<and> generate_proto_from_pydantic no_classes
       \<lparr>definitions = [(''Sample'', object_def ''Sample'' [(''md5'', of_type ''string'')])]\<rparr>
     = Inl NotImplementedError"
  by (simp add: generate_proto_from_pydantic_def generate_lines_def emit_proto_entry_def
      emit_proto_message_def enum_properties_def find_capa_class_def no_classes_def
      object_def_def bind_err_def)

subsection \<open>The property order\<close>

lemma index_nth_distinct:
  "distinct xs \<Longrightarrow> i < length xs \<Longrightarrow> index xs (xs ! i) = i"
proof (induction xs arbitrary: i)
  case Nil
  then show ?case by simp
next
  case (Cons x xs)
  show ?case
  proof (cases i)
    case 0
    then show ?thesis by (simp add: index_def)
  next
    case (Suc k)
    with Cons.prems have "xs ! k \<noteq> x" by auto
    with Suc Cons show ?thesis by (simp add: index_def)
  qed
qed

lemma index_less: "x \<in> set xs \<Longrightarrow> index xs x < length xs"
  unfolding index_def by (induction xs) auto

lemma map_index_distinct:
  assumes "distinct xs"
  shows "map (index xs) xs = [0 ..< length xs]"
  using assms by (intro nth_equalityI) (simp_all add: index_nth_distinct)

lemma sorted_raw_index:
  assumes "distinct (map fst props)"
  shows "sorted (map (\<lambda>p. n + index (map fst props) (fst p)) props)"
proof -
  have "map (\<lambda>p. n + index (map fst props) (fst p)) props
        = map (\<lambda>i. n + i) (map (index (map fst props)) (map fst props))"
    by (simp add: comp_def)
  also have "\<dots> = map (\<lambda>i. n + i) [0 ..< length props]"
    using map_index_distinct [OF assms] by simp
  finally show ?thesis
    by (simp add: sorted_map sorted_wrt_iff_nth_less del: upt.simps)
qed

lemma sorted_split_by_key:
  assumes "sorted (map f ys)" and "\<And>x y. x \<in> set ys \<Longrightarrow> y \<in> set ys \<Longrightarrow> R x \<Longrightarrow> \<not> R y \<Longrightarrow> f x < (f y :: nat)"
  shows "ys = filter R ys @ filter (\<lambda>y. \<not> R y) ys"
  using assms
proof (induction ys)
  case Nil
  then show ?case by simp
next
  case (Cons y ys)
  have IH: "ys = filter R ys @ filter (\<lambda>y. \<not> R y) ys"
    using Cons by simp
  show ?case
  proof (cases "R y")
    case True
    then show ?thesis using IH by simp
  next
    case False
    have "\<not> R z" if "z \<in> set ys" for z
    proof
      assume "R z"
      then have "f z < f y" using Cons.prems(2) [of z y] that False by simp
      moreover have "f y \<le> f z" using Cons.prems(1) that by simp
      ultimately show False by simp
    qed
    then have "filter R ys = []" and "filter (\<lambda>y. \<not> R y) ys = ys"
      by (simp_all add: filter_empty_conv filter_id_conv)
    with False show ?thesis by simp
  qed
qed

lemma sort_key_split:
  assumes "\<And>x y. x \<in> set xs \<Longrightarrow> y \<in> set xs \<Longrightarrow> R x \<Longrightarrow> \<not> R y \<Longrightarrow> f x < (f y :: nat)"
  shows "sort_key f xs = sort_key f (filter R xs) @ sort_key f (filter (\<lambda>y. \<not> R y) xs)"
proof -
  have "sort_key f xs = filter R (sort_key f xs) @ filter (\<lambda>y. \<not> R y) (sort_key f xs)"
  proof (rule sorted_split_by_key [where f = f])
    show "sorted (map f (sort_key f xs))" by (rule sorted_sort_key)
  next
    fix x y
    assume "x \<in> set (sort_key f xs)" "y \<in> set (sort_key f xs)" "R x" "\<not> R y"
    then show "f x < f y" using assms by simp
  qed
  then show ?thesis by (simp add: filter_sort)
qed

lemma sort_key_cong_set:
  "(\<And>x. x \<in> set xs \<Longrightarrow> f x = g x) \<Longrightarrow> sort_key f xs = sort_key g xs"
proof (induction xs)
  case Nil
  then show ?case by simp
next
  case (Cons x xs)
  have 1: "sort_key f xs = sort_key g xs" using Cons by simp
  have "insort_key f x ys = insort_key g x ys" if "set ys \<subseteq> set (x # xs)" for ys
    using that Cons.prems by (induction ys) auto
  then have "insort_key f x (sort_key g xs) = insort_key g x (sort_key g xs)"
    by (simp add: subset_insertI)
  then show ?case using 1 by simp
qed

text \<open>
  Where the sort key does what its comments say: when every resolved property has a key
  below that of every unresolved one, the resolved properties come first, sorted by the
  position of the normalized name in the class, and the unresolved ones follow in their
  schema-declared order. This is so whenever the class has no more parameters than the
  definition has properties.
\<close>

lemma enum_properties_resolved_first:
  assumes "d_title message = Some title"
    and "find_capa_class mods title = Inr property_order"
    and "d_properties message = Some props"
    and "distinct (map fst props)"
    and "\<And>x y. x \<in> set props \<Longrightarrow> y \<in> set props \<Longrightarrow> resolved property_order x \<Longrightarrow>
           \<not> resolved property_order y \<Longrightarrow>
           index property_order (sanitize_prop_name (fst x))
             < length props + index (map fst props) (fst y)"
  shows "enum_properties mods message =
           Inr (sort_key (\<lambda>p. index property_order (sanitize_prop_name (fst p)))
                  (filter (resolved property_order) props)
                @ filter (\<lambda>p. \<not> resolved property_order p) props)"
proof -
  let ?key = "\<lambda>p. get_property_index property_order (map fst props) (fst p)"
  let ?R = "resolved property_order"
  have split: "sort_key ?key props
      = sort_key ?key (filter ?R props) @ sort_key ?key (filter (\<lambda>p. \<not> ?R p) props)"
  proof (rule sort_key_split)
    fix x y
    assume "x \<in> set props" "y \<in> set props" "?R x" "\<not> ?R y"
    then show "?key x < ?key y"
      using assms(5) [of x y] by (simp add: get_property_index_def resolved_def)
  qed
  have res: "sort_key ?key (filter ?R props)
      = sort_key (\<lambda>p. index property_order (sanitize_prop_name (fst p))) (filter ?R props)"
    by (rule sort_key_cong_set) (simp add: get_property_index_def resolved_def)
  have "sort_key ?key (filter (\<lambda>p. \<not> ?R p) props)
      = sort_key (\<lambda>p. length props + index (map fst props) (fst p)) (filter (\<lambda>p. \<not> ?R p) props)"
    by (rule sort_key_cong_set) (simp add: get_property_index_def resolved_def)
  also have "\<dots> = filter (\<lambda>p. \<not> ?R p) props"
    by (rule sort_key_id_if_sorted) (rule sorted_filter, rule sorted_raw_index [OF assms(4)])
  finally have unres: "sort_key ?key (filter (\<lambda>p. \<not> ?R p) props) = filter (\<lambda>p. \<not> ?R p) props" .
  show ?thesis
    using assms(1,2,3) split res unres by (simp add: enum_properties_def bind_err_def)
qed

lemma enum_properties_short_class:
  assumes "d_title message = Some title"
    and "find_capa_class mods title = Inr property_order"
    and "d_properties message = Some props"
    and "distinct (map fst props)"
    and "length property_order \<le> length props"
  shows "enum_properties mods message =
           Inr (sort_key (\<lambda>p. index property_order (sanitize_prop_name (fst p)))
                  (filter (resolved property_order) props)
                @ filter (\<lambda>p. \<not> resolved property_order p) props)"
proof (rule enum_properties_resolved_first [OF assms(1-4)])
  fix x y
  assume "resolved property_order x"
  then have "index property_order (sanitize_prop_name (fst x)) < length property_order"
    unfolding resolved_def by (rule index_less)
  with assms(5) show "index property_order (sanitize_prop_name (fst x))
             < length props + index (map fst props) (fst y)"
    by simp
qed

text \<open>
  The class \<open>Rule\<close> with as many parameters as the definition has properties: \<open>att&ck\<close>
  is resolved through its normalized name \<open>attack\<close>, \<open>capa/subscope\<close> is not resolved
  (the class calls it \<open>is_subscope\<close>), and the resolved properties come first.
\<close>

lemma enum_properties_resolved_first_example:
  "sanitize_prop_name ''att&ck'' = ''attack''
   \<and> sanitize_prop_name ''capa/subscope'' = ''capa_subscope''
   \<and> enum_properties (one_class ''Rule'' [''name'', ''attack'', ''is_subscope''])
       (object_def ''Rule'' [(''capa/subscope'', of_type ''boolean''),
          (''att&ck'', of_type ''string''), (''name'', of_type ''string'')])
     = Inr [(''name'', of_type ''string''), (''att&ck'', of_type ''string''),
            (''capa/subscope'', of_type ''boolean'')]"
  using enum_properties_short_class [of
      "object_def ''Rule'' [(''capa/subscope'', of_type ''boolean''),
          (''att&ck'', of_type ''string''), (''name'', of_type ''string'')]"
      "''Rule''" "one_class ''Rule'' [''name'', ''attack'', ''is_subscope'']"
      "[''name'', ''attack'', ''is_subscope'']"
      "[(''capa/subscope'', of_type ''boolean''),
          (''att&ck'', of_type ''string''), (''name'', of_type ''string'')]"]
  by (simp add: object_def_def one_class_def find_capa_class_def resolved_def
      sanitize_prop_name_def replace_def index_def)

text \<open>
  C3. The resolver is to return the properties whose normalized name is a parameter of
  the class first, in the order of the class, and the other properties after them. The
  key of an unresolved property is \<open>len(properties)\<close> plus its position, which is above
  every resolved key only if the class has no more parameters than the definition has
  properties. Here the class \<open>Rule\<close> has four parameters and the definition two
  properties: the unresolved \<open>capa/subscope\<close> gets the key \<open>2 + 0\<close>, the resolved
  \<open>att&ck\<close> (normalized \<open>attack\<close>) the key 3, and the unresolved property is returned
  first.
\<close>

theorem enum_properties_unresolved_first:
  "enum_properties (one_class ''Rule'' [''name'', ''namespace'', ''authors'', ''attack''])
     (object_def ''Rule'' [(''capa/subscope'', of_type ''boolean''),
        (''att&ck'', of_type ''string'')])
   = Inr [(''capa/subscope'', of_type ''boolean''), (''att&ck'', of_type ''string'')]
   \<and> sanitize_prop_name ''att&ck'' = ''attack''
   \<and> resolved [''name'', ''namespace'', ''authors'', ''attack''] (''att&ck'', of_type ''string'')
   \<and> get_property_index [''name'', ''namespace'', ''authors'', ''attack'']
         [''capa/subscope'', ''att&ck''] ''att&ck'' = 3
   \<and> resolved [''name'', ''namespace'', ''authors'', ''attack'']
         (''capa/subscope'', of_type ''boolean'') = False
   \<and> get_property_index [''name'', ''namespace'', ''authors'', ''attack'']
         [''capa/subscope'', ''att&ck''] ''capa/subscope'' = 2"
  by (simp add: enum_properties_def one_class_def object_def_def find_capa_class_def bind_err_def
      get_property_index_def sanitize_prop_name_def replace_def index_def resolved_def)

subsection \<open>What one property writes\<close>

lemma line_numbers_append [simp]: "line_numbers (xs @ ys) = line_numbers xs @ line_numbers ys"
  by (induction xs) (auto split: option.splits)


text \<open>The branches of \<open>emit_property\<close>, one equation each.\<close>

lemma emit_property_ref:
  "is_ref prop \<Longrightarrow>
   emit_property st (raw_name, prop) =
     bind_err (get_ref_type_name prop)
       (\<lambda>ptype. Inr (st\<lparr>counter := counter st + 1,
                        out := out st @ [MessageField ptype (sanitize_prop_name raw_name) (counter st)]\<rparr>))"
  by (simp add: emit_property_def Let_def)

lemma emit_property_custom:
  "\<not> is_ref prop \<Longrightarrow> \<not> is_primitive_type prop \<Longrightarrow> is_custom_type prop \<Longrightarrow>
   emit_property st (raw_name, prop) =
     bind_err (get_custom_type_name prop)
       (\<lambda>ptype. Inr (st\<lparr>counter := counter st + 1,
                        out := out st @ [MessageField ptype (sanitize_prop_name raw_name) (counter st)]\<rparr>))"
  by (simp add: emit_property_def Let_def)

lemma emit_property_union:
  "is_union_property prop \<Longrightarrow>
   emit_property st (raw_name, prop) =
     bind_err (emit_alternatives
                 (st\<lparr>counter := counter st + 1,
                     out := out st @ [OneofOpen (sanitize_prop_name raw_name)]\<rparr>)
                 (counter st) 0 (alternatives prop))
       (\<lambda>st2. Inr (st2\<lparr>out := out st2 @ [OneofClose]\<rparr>))"
  by (auto simp: emit_property_def Let_def is_union_property_def alternatives_def is_union_def
      split: option.splits)

lemma emit_property_unexpected:
  "\<not> is_ref prop \<Longrightarrow> \<not> is_primitive_type prop \<Longrightarrow> \<not> is_custom_type prop \<Longrightarrow>
   \<not> is_union prop \<Longrightarrow> \<not> is_map prop \<Longrightarrow>
   emit_property st (raw_name, prop) = Inl ValueError_unexpected_type"
  by (simp add: emit_property_def Let_def)

lemma emit_property_primitive_out:
  assumes "\<not> is_ref prop" and "is_primitive_type prop"
    and "emit_property st (raw_name, prop) = Inr st'"
  shows "\<exists>ptype. get_primitive_type_name prop = Inr ptype
     \<and> out st' = out st @ [MessageField ptype (sanitize_prop_name raw_name) (counter st)]
     \<and> counter st' = counter st + 1"
  using assms
  by (auto simp: emit_property_def Let_def bind_err_def
      split: sum.splits if_splits option.splits items.splits)

lemma emit_property_map_out:
  assumes "\<not> is_ref prop" and "\<not> is_primitive_type prop" and "\<not> is_custom_type prop"
    and "\<not> is_union prop" and "is_map prop"
    and "emit_property st (raw_name, prop) = Inr st'"
  shows "\<exists>vtype. out st' = out st @ [MapField vtype (sanitize_prop_name raw_name) (counter st)]
     \<and> counter st' = counter st + 1"
  using assms
  by (auto simp: emit_property_def Let_def bind_err_def
      split: sum.splits if_splits option.splits items.splits)

lemma emit_alternative_out:
  assumes "emit_alternative st i j alt = Inr st'"
  shows "\<exists>ptype. out st' = out st @ [OneofField ptype j i] \<and> counter st' = counter st"
  using assms
  by (auto simp: emit_alternative_def bind_err_def split: sum.splits if_splits)

lemma emit_alternatives_out:
  "emit_alternatives st i j alts = Inr st' \<Longrightarrow> counter st = i + 1 \<Longrightarrow>
   \<exists>body. out st' = out st @ body \<and> (\<forall>l \<in> set body. is_field_line l)
     \<and> line_numbers body = [i ..< i + length alts]
     \<and> counter st' = i + 1 + length alts"
proof (induction alts arbitrary: st i j)
  case Nil
  then show ?case by simp
next
  case (Cons alt alts)
  from Cons.prems(1) obtain st1 where
    1: "emit_alternative st i j alt = Inr st1"
    and 2: "emit_alternatives (st1\<lparr>counter := counter st1 + 1\<rparr>) (counter st1) (j + 1) alts = Inr st'"
    by (auto split: sum.splits)
  from emit_alternative_out [OF 1] obtain ptype where
    o1: "out st1 = out st @ [OneofField ptype j i]" and c1: "counter st1 = counter st"
    by blast
  have "counter (st1\<lparr>counter := counter st1 + 1\<rparr>) = counter st1 + 1" by simp
  from Cons.IH [OF 2 this] obtain body where
    b: "out st' = out (st1\<lparr>counter := counter st1 + 1\<rparr>) @ body"
    "\<forall>l \<in> set body. is_field_line l"
    "line_numbers body = [counter st1 ..< counter st1 + length alts]"
    "counter st' = counter st1 + 1 + length alts"
    by blast
  let ?body = "OneofField ptype j i # body"
  have "out st' = out st @ ?body" using b(1) o1 by simp
  moreover have "\<forall>l \<in> set ?body. is_field_line l" using b(2) by simp
  moreover have "line_numbers ?body = [i ..< i + length (alt # alts)]"
    using b(3) c1 Cons.prems(2) by (simp add: upt_rec)
  moreover have "counter st' = i + 1 + length (alt # alts)"
    using b(4) c1 Cons.prems(2) by simp
  ultimately show ?case by blast
qed

lemma emit_property_out:
  assumes "emit_property st (raw_name, prop) = Inr st'"
  shows "\<exists>body. out st' = out st @ body \<and> (\<forall>l \<in> set body. is_field_line l)
     \<and> line_numbers body = numbers_from (counter st) [prop]
     \<and> counter st' = counter st + length (numbers_from (counter st) [prop])
                        + (if is_union_property prop then 1 else 0)"
proof -
  consider (ref) "is_ref prop"
    | (prim) "\<not> is_ref prop" "is_primitive_type prop"
    | (custom) "\<not> is_ref prop" "\<not> is_primitive_type prop" "is_custom_type prop"
    | (union) "is_union_property prop"
    | (map) "\<not> is_ref prop" "\<not> is_primitive_type prop" "\<not> is_custom_type prop"
        "\<not> is_union prop" "is_map prop"
    | (none) "\<not> is_ref prop" "\<not> is_primitive_type prop" "\<not> is_custom_type prop"
        "\<not> is_union prop" "\<not> is_map prop"
    by (auto simp: is_union_property_def)
  then show ?thesis
  proof cases
    case ref
    then have nu: "\<not> is_union_property prop" by (simp add: is_union_property_def)
    from assms ref obtain ptype where
      "st' = st\<lparr>counter := counter st + 1,
                out := out st @ [MessageField ptype (sanitize_prop_name raw_name) (counter st)]\<rparr>"
      by (auto simp: emit_property_ref bind_err_def split: sum.splits)
    then show ?thesis using nu by simp
  next
    case prim
    then have nu: "\<not> is_union_property prop" by (simp add: is_union_property_def)
    from emit_property_primitive_out [OF prim assms] show ?thesis using nu by auto
  next
    case custom
    then have nu: "\<not> is_union_property prop" by (simp add: is_union_property_def)
    from assms custom obtain ptype where
      "st' = st\<lparr>counter := counter st + 1,
                out := out st @ [MessageField ptype (sanitize_prop_name raw_name) (counter st)]\<rparr>"
      by (auto simp: emit_property_custom bind_err_def split: sum.splits)
    then show ?thesis using nu by simp
  next
    case union
    let ?st0 = "st\<lparr>counter := counter st + 1,
                    out := out st @ [OneofOpen (sanitize_prop_name raw_name)]\<rparr>"
    from assms union obtain st2 where
      2: "emit_alternatives ?st0 (counter st) 0 (alternatives prop) = Inr st2"
      and 3: "st' = st2\<lparr>out := out st2 @ [OneofClose]\<rparr>"
      by (auto simp: emit_property_union bind_err_def split: sum.splits)
    have "counter ?st0 = counter st + 1" by simp
    from emit_alternatives_out [OF 2 this] obtain body where
      b: "out st2 = out ?st0 @ body" "\<forall>l \<in> set body. is_field_line l"
      "line_numbers body = [counter st ..< counter st + length (alternatives prop)]"
      "counter st2 = counter st + 1 + length (alternatives prop)"
      by blast
    let ?body = "OneofOpen (sanitize_prop_name raw_name) # body @ [OneofClose]"
    have "out st' = out st @ ?body" using 3 b(1) by simp
    moreover have "\<forall>l \<in> set ?body. is_field_line l" using b(2) by simp
    moreover have "line_numbers ?body = numbers_from (counter st) [prop]"
      using b(3) union by simp
    moreover have "counter st' = counter st + length (numbers_from (counter st) [prop])
                        + (if is_union_property prop then 1 else 0)"
      using 3 b(4) union by simp
    ultimately show ?thesis by blast
  next
    case map
    then have nu: "\<not> is_union_property prop" by (simp add: is_union_property_def)
    from emit_property_map_out [OF map assms] show ?thesis using nu by auto
  next
    case none
    with assms show ?thesis by (simp add: emit_property_unexpected)
  qed
qed

subsection \<open>Field numbers\<close>

lemma numbers_from_Cons:
  "numbers_from c (p # ps) =
     numbers_from c [p]
     @ numbers_from (c + length (numbers_from c [p]) + (if is_union_property p then 1 else 0)) ps"
  by simp

lemma emit_properties_out:
  "emit_properties st ps = Inr st' \<Longrightarrow>
   \<exists>body. out st' = out st @ body \<and> (\<forall>l \<in> set body. is_field_line l)
     \<and> line_numbers body = numbers_from (counter st) (map snd ps)"
proof (induction ps arbitrary: st)
  case Nil
  then show ?case by simp
next
  case (Cons p ps)
  from Cons.prems obtain st1 where
    1: "emit_property st (fst p, snd p) = Inr st1" and 2: "emit_properties st1 ps = Inr st'"
    by (auto split: sum.splits)
  from emit_property_out [OF 1] obtain b1 where
    b1: "out st1 = out st @ b1" "\<forall>l \<in> set b1. is_field_line l"
    "line_numbers b1 = numbers_from (counter st) [snd p]"
    "counter st1 = counter st + length (numbers_from (counter st) [snd p])
                     + (if is_union_property (snd p) then 1 else 0)"
    by blast
  from Cons.IH [OF 2] obtain b2 where
    b2: "out st' = out st1 @ b2" "\<forall>l \<in> set b2. is_field_line l"
    "line_numbers b2 = numbers_from (counter st1) (map snd ps)"
    by blast
  have "out st' = out st @ (b1 @ b2)" using b1(1) b2(1) by simp
  moreover have "\<forall>l \<in> set (b1 @ b2). is_field_line l" using b1(2) b2(2) by auto
  moreover have "line_numbers (b1 @ b2) = numbers_from (counter st) (map snd (p # ps))"
    using b1(3,4) b2(3) numbers_from_Cons [of "counter st" "snd p" "map snd ps"] by simp
  ultimately show ?case by blast
qed

lemma numbers_from_lower: "n \<in> set (numbers_from c ps) \<Longrightarrow> c \<le> n"
proof (induction ps arbitrary: c)
  case Nil
  then show ?case by simp
next
  case (Cons p ps)
  then show ?case by (fastforce split: if_splits)
qed

lemma numbers_from_increasing: "sorted_wrt (<) (numbers_from c ps)"
proof (induction ps arbitrary: c)
  case Nil
  then show ?case by simp
next
  case (Cons p ps)
  show ?case
  proof (cases "is_union_property p")
    case True
    have "sorted_wrt (<) [c ..< c + length (alternatives p)]"
      by (simp add: sorted_wrt_iff_nth_less del: upt.simps)
    moreover have "x < y" if "x \<in> set [c ..< c + length (alternatives p)]"
      and "y \<in> set (numbers_from (c + length (alternatives p) + 1) ps)" for x y
      using that numbers_from_lower [of y "c + length (alternatives p) + 1" ps] by simp
    ultimately show ?thesis
      using True Cons.IH [of "c + length (alternatives p) + 1"]
      by (simp add: sorted_wrt_append del: upt.simps)
  next
    case False
    have "c < y" if "y \<in> set (numbers_from (c + 1) ps)" for y
      using that numbers_from_lower [of y "c + 1" ps] by simp
    then show ?thesis using False Cons.IH [of "c + 1"] by simp
  qed
qed

lemma length_numbers_from:
  "length (numbers_from c ps) =
     length (filter (\<lambda>p. \<not> is_union_property p) ps)
     + sum_list (map (\<lambda>p. length (alternatives p)) (filter is_union_property ps))"
  by (induction ps arbitrary: c) simp_all

text \<open>Unfolding the translator on a concrete schema.\<close>

lemmas eval_simps =
  emit_proto_message_def enum_properties_def find_capa_class_def bind_err_def
  get_property_index_def sanitize_prop_name_def replace_def index_def
  emit_property_def emit_alternative_def Let_def
  is_ref_def is_primitive_type_def is_custom_type_def is_union_def is_map_def is_tuple_def
  is_array_def get_ref_type_name_def get_custom_type_name_def deferred_tuple_def
  get_primitive_type_name.simps get_tuple_type_name.simps get_type_name.simps
  object_def_def one_class_def of_type_def ref_to_def union_of_def array_of_def tuple_of_def
  map_to_def object_titled_def enum_def_def

text \<open>
  C1 (as the code has it). In every emitted message the field numbers come from one
  counter that starts at 1 and is advanced once for every property, union or not, and
  once more for every union alternative. The numbers written are those of
  \<open>numbers_from 1\<close>: one for a property that is no union, \<open>K\<close> consecutive ones for
  the \<open>K\<close> alternatives of a union, and the number after a union's last alternative is
  skipped. They are strictly increasing (no reuse), at least 1, and there are as many as
  there are properties that are no union plus union alternatives.
\<close>

theorem message_field_numbers:
  assumes "emit_proto_message mods out0 deferred0 message = Inr (out1, deferred1)"
  shows "\<exists>title props body.
      d_title message = Some title \<and> enum_properties mods message = Inr props
      \<and> out1 = out0 @ [MessageOpen title] @ body @ [Close, Blank]
      \<and> line_numbers body = numbers_from 1 (map snd props)
      \<and> sorted_wrt (<) (line_numbers body)
      \<and> (\<forall>n \<in> set (line_numbers body). 1 \<le> n)
      \<and> length (line_numbers body) =
          length (filter (\<lambda>p. \<not> is_union_property p) (map snd props))
          + sum_list (map (\<lambda>p. length (alternatives p))
                        (filter is_union_property (map snd props)))"
proof -
  from assms obtain title props st where
    t: "d_title message = Some title" and p: "enum_properties mods message = Inr props"
    and e: "emit_properties
              \<lparr>out = out0 @ [MessageOpen title], deferred_types = deferred0, counter = 1\<rparr> props
            = Inr st"
    and o: "out1 = out st @ [Close, Blank]"
    by (auto simp: emit_proto_message_def bind_err_def split: option.splits sum.splits)
  from emit_properties_out [OF e] obtain body where
    b: "out st = (out0 @ [MessageOpen title]) @ body"
    "line_numbers body = numbers_from 1 (map snd props)"
    by auto
  have "out1 = out0 @ [MessageOpen title] @ body @ [Close, Blank]"
    using o b(1) by simp
  moreover have "sorted_wrt (<) (line_numbers body)"
    using b(2) numbers_from_increasing by simp
  moreover have "\<forall>n \<in> set (line_numbers body). 1 \<le> n"
    using b(2) numbers_from_lower by auto
  moreover have "length (line_numbers body) =
          length (filter (\<lambda>p. \<not> is_union_property p) (map snd props))
          + sum_list (map (\<lambda>p. length (alternatives p))
                        (filter is_union_property (map snd props)))"
    using b(2) length_numbers_from by simp
  ultimately show ?thesis using t p b(2) by blast
qed

theorem message_field_numbers_witness:
  "emit_proto_message feature_class [] [] feature_message
   = Inr ([MessageOpen ''Feature'',
           MessageField ''string'' ''type'' 1,
           MessageField ''Integer'' ''count'' 2,
           OneofOpen ''value'',
           OneofField ''string'' 0 3,
           OneofField ''Integer'' 1 4,
           OneofField ''Address'' 2 5,
           OneofClose,
           MessageField ''string'' ''description'' 7,
           Close, Blank], [])
   \<and> (\<exists>title props body.
      d_title feature_message = Some title \<and> enum_properties feature_class feature_message = Inr props
      \<and> [MessageOpen ''Feature'',
           MessageField ''string'' ''type'' 1,
           MessageField ''Integer'' ''count'' 2,
           OneofOpen ''value'',
           OneofField ''string'' 0 3,
           OneofField ''Integer'' 1 4,
           OneofField ''Address'' 2 5,
           OneofClose,
           MessageField ''string'' ''description'' 7,
           Close, Blank] = [] @ [MessageOpen title] @ body @ [Close, Blank]
      \<and> line_numbers body = numbers_from 1 (map snd props)
      \<and> sorted_wrt (<) (line_numbers body))"
proof -
  have e: "emit_proto_message feature_class [] [] feature_message
   = Inr ([MessageOpen ''Feature'',
           MessageField ''string'' ''type'' 1,
           MessageField ''Integer'' ''count'' 2,
           OneofOpen ''value'',
           OneofField ''string'' 0 3,
           OneofField ''Integer'' 1 4,
           OneofField ''Address'' 2 5,
           OneofClose,
           MessageField ''string'' ''description'' 7,
           Close, Blank], [])"
    by (simp add: feature_message_def feature_class_def eval_simps)
  from message_field_numbers [OF e] show ?thesis using e by blast
qed

text \<open>
  Two scalars, a union of three alternatives, a scalar: the alternatives take 3, 4 and 5,
  and the property after the union takes 7, not 6.
\<close>

theorem message_field_numbers_counterexample:
  "emit_proto_message feature_class [] [] feature_message
   = Inr ([MessageOpen ''Feature'',
           MessageField ''string'' ''type'' 1,
           MessageField ''Integer'' ''count'' 2,
           OneofOpen ''value'',
           OneofField ''string'' 0 3,
           OneofField ''Integer'' 1 4,
           OneofField ''Address'' 2 5,
           OneofClose,
           MessageField ''string'' ''description'' 7,
           Close, Blank], [])
   \<and> line_numbers
         [MessageOpen ''Feature'',
          MessageField ''string'' ''type'' 1,
          MessageField ''Integer'' ''count'' 2,
          OneofOpen ''value'',
          OneofField ''string'' 0 3,
          OneofField ''Integer'' 1 4,
          OneofField ''Address'' 2 5,
          OneofClose,
          MessageField ''string'' ''description'' 7,
          Close, Blank] = [1, 2, 3, 4, 5, 7]"
  by (simp add: feature_message_def feature_class_def eval_simps)

subsection \<open>Array properties\<close>

lemma is_array_TrueD:
  assumes "is_array prop = Inr True"
  shows "p_type prop = Some ''array''" and "\<not> is_tuple prop" and "is_primitive_type prop"
    and "\<exists>d. p_items prop = Some (ItemsDict d)"
  using assms
  by (auto simp: is_array_def is_tuple_def is_primitive_type_def
      split: option.splits if_splits items.splits)

lemma is_tuple_D:
  assumes "is_tuple prop"
  shows "p_type prop = Some ''array''" and "is_primitive_type prop"
    and "\<exists>n. p_minItems prop = Some n \<and> p_maxItems prop = Some n"
  using assms
  by (auto simp: is_tuple_def is_primitive_type_def split: option.splits if_splits)

lemma get_primitive_type_name_tuple:
  "is_tuple prop \<Longrightarrow> get_primitive_type_name prop = get_tuple_type_name prop"
  by (frule is_tuple_D(1), frule is_tuple_D(2)) (simp add: get_primitive_type_name.simps)

lemma get_primitive_type_name_array:
  assumes "is_array prop = Inr True" and "p_items prop = Some (ItemsDict aitem)"
  shows "get_primitive_type_name prop =
     bind_err
       (if is_primitive_type aitem then get_primitive_type_name aitem
        else if is_ref aitem then get_ref_type_name aitem
        else if is_custom_type aitem then get_custom_type_name aitem
        else Inl NotImplementedError)
       (\<lambda>atype. Inr (''repeated '' @ atype))"
  using is_array_TrueD(1-3) [OF assms(1)] assms
  by (subst get_primitive_type_name.simps) simp

lemma get_primitive_type_name_scalar:
  "is_scalar prop \<Longrightarrow>
   get_primitive_type_name prop =
     Inr (if p_type prop = Some ''string'' then ''string''
          else if p_type prop = Some ''boolean'' then ''bool''
          else if p_type prop = Some ''integer'' then ''Integer'' else ''Number'')"
  by (subst get_primitive_type_name.simps) (auto simp: is_scalar_def is_primitive_type_def)

lemma is_scalar_D: "is_scalar prop \<Longrightarrow> is_primitive_type prop \<and> \<not> is_tuple prop"
  by (auto simp: is_scalar_def is_primitive_type_def is_tuple_def)

lemma emit_property_array:
  assumes "\<not> is_ref prop" and "is_array prop = Inr True"
    and "p_items prop = Some (ItemsDict aitem)"
  shows "emit_property st (raw_name, prop) =
     bind_err (get_primitive_type_name prop)
       (\<lambda>ptype.
          if is_tuple aitem then
            bind_err (get_tuple_type_name aitem)
              (\<lambda>atype.
                 bind_err (deferred_tuple atype aitem)
                   (\<lambda>d. Inr (st\<lparr>counter := counter st + 1,
                                out := out st @ [MessageField ptype (sanitize_prop_name raw_name) (counter st)],
                                deferred_types := dict_set (deferred_types st) atype d\<rparr>)))
          else Inr (st\<lparr>counter := counter st + 1,
                       out := out st @ [MessageField ptype (sanitize_prop_name raw_name) (counter st)]\<rparr>))"
  using is_array_TrueD(2,3) [OF assms(2)] assms
  by (simp add: emit_property_def Let_def bind_err_def split: sum.splits)

text \<open>
  C4 (as the code has it). An array property (no reference, variable size, \<open>items\<close> a
  single description) is emitted as one field \<open>repeated T\<close>, with the counter advanced by
  one, when its item is a primitive scalar, a reference or a custom object of type name
  \<open>T\<close>, and also when its item is a tuple of wrapper name \<open>T\<close>, whose wrapper is then
  registered as a deferred type. An array whose item is a map (and no reference) is
  refused with \<open>NotImplementedError\<close>.
\<close>

theorem array_property_emission:
  assumes "\<not> is_ref p" and "is_array p = Inr True"
    and "p_items p = Some (ItemsDict aitem)"
  shows "(is_scalar aitem \<and> get_primitive_type_name aitem = Inr t
          \<or> \<not> is_primitive_type aitem \<and> is_ref aitem \<and> get_ref_type_name aitem = Inr t
          \<or> \<not> is_primitive_type aitem \<and> \<not> is_ref aitem \<and> is_custom_type aitem
              \<and> get_custom_type_name aitem = Inr t
        \<longrightarrow> emit_property st (raw_name, p) =
              Inr (st\<lparr>counter := counter st + 1,
                      out := out st @ [MessageField (''repeated '' @ t)
                                         (sanitize_prop_name raw_name) (counter st)]\<rparr>))
     \<and> (is_tuple aitem \<and> get_tuple_type_name aitem = Inr t \<and> deferred_tuple t aitem = Inr d
        \<longrightarrow> emit_property st (raw_name, p) =
              Inr (st\<lparr>counter := counter st + 1,
                      out := out st @ [MessageField (''repeated '' @ t)
                                         (sanitize_prop_name raw_name) (counter st)],
                      deferred_types := dict_set (deferred_types st) t d\<rparr>))
     \<and> (is_map aitem \<and> \<not> is_ref aitem
        \<longrightarrow> emit_property st (raw_name, p) = Inl NotImplementedError)"
proof (intro conjI impI)
  assume "is_scalar aitem \<and> get_primitive_type_name aitem = Inr t
          \<or> \<not> is_primitive_type aitem \<and> is_ref aitem \<and> get_ref_type_name aitem = Inr t
          \<or> \<not> is_primitive_type aitem \<and> \<not> is_ref aitem \<and> is_custom_type aitem
              \<and> get_custom_type_name aitem = Inr t"
  then have "get_primitive_type_name p = Inr (''repeated '' @ t)" and "\<not> is_tuple aitem"
    using is_scalar_D [of aitem] is_tuple_D(2) [of aitem]
    by (auto simp: get_primitive_type_name_array [OF assms(2,3)] bind_err_def)
  then show "emit_property st (raw_name, p) =
              Inr (st\<lparr>counter := counter st + 1,
                      out := out st @ [MessageField (''repeated '' @ t)
                                         (sanitize_prop_name raw_name) (counter st)]\<rparr>)"
    by (simp add: emit_property_array [OF assms] bind_err_def)
next
  assume a: "is_tuple aitem \<and> get_tuple_type_name aitem = Inr t \<and> deferred_tuple t aitem = Inr d"
  then have "get_primitive_type_name p = Inr (''repeated '' @ t)"
    using is_tuple_D(2) [of aitem] get_primitive_type_name_tuple [of aitem]
    by (simp add: get_primitive_type_name_array [OF assms(2,3)] bind_err_def)
  then show "emit_property st (raw_name, p) =
              Inr (st\<lparr>counter := counter st + 1,
                      out := out st @ [MessageField (''repeated '' @ t)
                                         (sanitize_prop_name raw_name) (counter st)],
                      deferred_types := dict_set (deferred_types st) t d\<rparr>)"
    using a by (simp add: emit_property_array [OF assms] bind_err_def)
next
  assume "is_map aitem \<and> \<not> is_ref aitem"
  then have "\<not> is_primitive_type aitem" and "\<not> is_ref aitem" and "\<not> is_custom_type aitem"
    by (auto simp: is_map_def is_primitive_type_def is_custom_type_def split: option.splits)
  then have "get_primitive_type_name p = Inl NotImplementedError"
    by (simp add: get_primitive_type_name_array [OF assms(2,3)] bind_err_def)
  then show "emit_property st (raw_name, p) = Inl NotImplementedError"
    by (simp add: emit_property_array [OF assms] bind_err_def)
qed

theorem array_property_emission_witness:
  "\<not> is_ref (array_of (ref_to ''Address''))
   \<and> is_array (array_of (ref_to ''Address'')) = Inr True
   \<and> p_items (array_of (ref_to ''Address'')) = Some (ItemsDict (ref_to ''Address''))
   \<and> \<not> is_primitive_type (ref_to ''Address'') \<and> is_ref (ref_to ''Address'')
   \<and> get_ref_type_name (ref_to ''Address'') = Inr ''Address''
   \<and> emit_property (first_state []) (''locations'', array_of (ref_to ''Address''))
       = Inr \<lparr>out = [MessageField ''repeated Address'' ''locations'' 1],
              deferred_types = [], counter = 2\<rparr>
   \<and> is_tuple (tuple_of [ref_to ''Address'', ref_to ''Match''])
   \<and> get_tuple_type_name (tuple_of [ref_to ''Address'', ref_to ''Match'']) = Inr ''Pair_Address_Match''
   \<and> is_array (array_of (tuple_of [ref_to ''Address'', ref_to ''Match''])) = Inr True
   \<and> emit_property (first_state [])
       (''matches'', array_of (tuple_of [ref_to ''Address'', ref_to ''Match'']))
     = Inr \<lparr>out = [MessageField ''repeated Pair_Address_Match'' ''matches'' 1],
            deferred_types =
              [(''Pair_Address_Match'',
                DeferredTupleType ''Pair_Address_Match'' 2
                  (ItemsList [ref_to ''Address'', ref_to ''Match'']))],
            counter = 2\<rparr>
   \<and> is_map (map_to (of_type ''string'')) \<and> \<not> is_ref (map_to (of_type ''string''))
   \<and> is_array (array_of (map_to (of_type ''string''))) = Inr True
   \<and> emit_property (first_state []) (''tables'', array_of (map_to (of_type ''string'')))
       = Inl NotImplementedError"
  using
    array_property_emission [where p = "array_of (ref_to ''Address'')"
      and aitem = "ref_to ''Address''" and t = "''Address''" and st = "first_state []"
      and raw_name = "''locations''"]
    array_property_emission [where p = "array_of (tuple_of [ref_to ''Address'', ref_to ''Match''])"
      and aitem = "tuple_of [ref_to ''Address'', ref_to ''Match'']"
      and t = "''Pair_Address_Match''"
      and d = "DeferredTupleType ''Pair_Address_Match'' 2
                 (ItemsList [ref_to ''Address'', ref_to ''Match''])"
      and st = "first_state []" and raw_name = "''matches''"]
    array_property_emission [where p = "array_of (map_to (of_type ''string''))"
      and aitem = "map_to (of_type ''string'')" and st = "first_state []"
      and raw_name = "''tables''"]
  by (simp add: first_state_def eval_simps)

text \<open>
  An array of arrays of strings is not refused: the item is itself taken as a primitive
  type and the field is typed \<open>repeated repeated string\<close>. An array of pairs is emitted
  too, as a repeated field of the pair's wrapper.
\<close>

theorem array_property_emission_counterexample:
  "emit_property (first_state []) (''parts'', array_of (array_of (of_type ''string'')))
     = Inr \<lparr>out = [MessageField ''repeated repeated string'' ''parts'' 1],
            deferred_types = [], counter = 2\<rparr>
   \<and> emit_property (first_state [])
       (''matches'', array_of (tuple_of [ref_to ''Address'', ref_to ''Match'']))
     = Inr \<lparr>out = [MessageField ''repeated Pair_Address_Match'' ''matches'' 1],
            deferred_types =
              [(''Pair_Address_Match'',
                DeferredTupleType ''Pair_Address_Match'' 2
                  (ItemsList [ref_to ''Address'', ref_to ''Match'']))],
            counter = 2\<rparr>"
  by (simp add: first_state_def eval_simps)

subsection \<open>What the emitter registers\<close>

lemma map_fst_dict_set:
  "map fst (dict_set r k v) = (if k \<in> fst ` set r then map fst r else map fst r @ [k])"
  by (induction r) force+

lemma keys_dict_set: "fst ` set (dict_set r k v) = insert k (fst ` set r)"
proof -
  have "fst ` set (dict_set r k v) = set (map fst (dict_set r k v))" by simp
  also have "\<dots> = insert k (fst ` set r)" by (auto simp: map_fst_dict_set)
  finally show ?thesis .
qed

lemma distinct_dict_set: "distinct (map fst r) \<Longrightarrow> distinct (map fst (dict_set r k v))"
  by (simp add: map_fst_dict_set)

lemma set_dict_set: "(k', v') \<in> set (dict_set r k v) \<Longrightarrow> (k' = k \<and> v' = v) \<or> (k', v') \<in> set r"
  by (induction r) (auto split: if_splits)

lemma reg_step_refl [simp]: "reg_step r r"
  by (simp add: reg_step_def)

lemma reg_step_trans: "reg_step r1 r2 \<Longrightarrow> reg_step r2 r3 \<Longrightarrow> reg_step r1 r3"
  by (auto simp: reg_step_def)

lemma reg_step_dict_set: "entry_ok k v \<Longrightarrow> reg_step r (dict_set r k v)"
  by (auto simp: reg_step_def reg_ok_def keys_dict_set distinct_dict_set dest: set_dict_set)

lemma tuple_name_not_array:
  assumes "get_tuple_type_name q = Inr n"
  shows "take 6 n \<noteq> ''Array_''"
  using assms
  by (subst (asm) get_tuple_type_name.simps)
     (auto simp: bind_err_def split: if_splits option.splits items.splits sum.splits)

lemma entry_ok_tuple: "get_tuple_type_name q = Inr n \<Longrightarrow> entry_ok n (DeferredTupleType n c its)"
  by (simp add: entry_ok_def tuple_name_not_array)

lemma entry_ok_array:
  "get_type_name item = Inr t \<Longrightarrow> entry_ok (''Array_'' @ t) (DeferredArrayType (''Array_'' @ t) item)"
  by (simp add: entry_ok_def)

lemma deferred_tuple_D:
  "deferred_tuple n q = Inr d \<Longrightarrow> \<exists>c its. d = DeferredTupleType n c its \<and> p_items q = Some its"
  by (auto simp: deferred_tuple_def split: option.splits)

lemma emit_alternative_registry:
  assumes "emit_alternative st i j alt = Inr st'"
  shows "reg_step (deferred_types st) (deferred_types st')"
proof (cases "is_ref alt")
  case True
  with assms show ?thesis
    by (auto simp: emit_alternative_def bind_err_def split: sum.splits)
next
  case False
  show ?thesis
  proof (cases "is_tuple alt")
    case True
    from assms False True obtain ptype d where
      n: "get_primitive_type_name alt = Inr ptype" and d: "deferred_tuple ptype alt = Inr d"
      and s: "deferred_types st' = dict_set (deferred_types st) ptype d"
      by (auto simp: emit_alternative_def bind_err_def split: sum.splits if_splits)
    from n True have "get_tuple_type_name alt = Inr ptype"
      by (simp add: get_primitive_type_name_tuple)
    with d have "entry_ok ptype d"
      by (auto dest!: deferred_tuple_D simp: entry_ok_tuple)
    with s show ?thesis by (simp add: reg_step_dict_set)
  next
    case nt: False
    with assms False show ?thesis
      by (auto simp: emit_alternative_def bind_err_def split: sum.splits if_splits)
  qed
qed

lemma emit_alternatives_registry:
  "emit_alternatives st i j alts = Inr st' \<Longrightarrow> reg_step (deferred_types st) (deferred_types st')"
proof (induction alts arbitrary: st i j)
  case Nil
  then show ?case by simp
next
  case (Cons alt alts)
  from Cons.prems obtain st1 where
    1: "emit_alternative st i j alt = Inr st1"
    and 2: "emit_alternatives (st1\<lparr>counter := counter st1 + 1\<rparr>) (counter st1) (j + 1) alts = Inr st'"
    by (auto split: sum.splits)
  from emit_alternative_registry [OF 1] Cons.IH [OF 2] show ?case
    by (auto intro: reg_step_trans)
qed

lemma emit_property_primitive_registry:
  assumes "\<not> is_ref prop" and "is_primitive_type prop"
    and "emit_property st (raw_name, prop) = Inr st'"
  shows "deferred_types st' = deferred_types st
     \<or> (\<exists>q n d. get_tuple_type_name q = Inr n \<and> deferred_tuple n q = Inr d
           \<and> deferred_types st' = dict_set (deferred_types st) n d)"
proof (cases "is_tuple prop")
  case True
  from assms True obtain ptype d where
    n: "get_primitive_type_name prop = Inr ptype" and d: "deferred_tuple ptype prop = Inr d"
    and s: "deferred_types st' = dict_set (deferred_types st) ptype d"
    by (auto simp: emit_property_def Let_def bind_err_def split: sum.splits)
  from n True have "get_tuple_type_name prop = Inr ptype"
    by (simp add: get_primitive_type_name_tuple)
  with d s show ?thesis by blast
next
  case False
  with assms show ?thesis
    by (auto simp: emit_property_def Let_def bind_err_def
        split: sum.splits if_splits option.splits items.splits) blast
qed

lemma emit_property_map_registry:
  assumes "\<not> is_ref prop" and "\<not> is_primitive_type prop" and "\<not> is_custom_type prop"
    and "\<not> is_union prop" and "is_map prop"
    and "emit_property st (raw_name, prop) = Inr st'"
  shows "deferred_types st' = deferred_types st
     \<or> (\<exists>item t. get_type_name item = Inr t
           \<and> deferred_types st' =
               dict_set (deferred_types st) (''Array_'' @ t) (DeferredArrayType (''Array_'' @ t) item))"
  using assms
  by (auto simp: emit_property_def Let_def bind_err_def
      split: sum.splits if_splits option.splits items.splits) (metis append.simps)

lemma emit_property_registry:
  assumes "emit_property st (raw_name, prop) = Inr st'"
  shows "reg_step (deferred_types st) (deferred_types st')"
proof -
  consider (ref) "is_ref prop"
    | (prim) "\<not> is_ref prop" "is_primitive_type prop"
    | (custom) "\<not> is_ref prop" "\<not> is_primitive_type prop" "is_custom_type prop"
    | (union) "is_union_property prop"
    | (map) "\<not> is_ref prop" "\<not> is_primitive_type prop" "\<not> is_custom_type prop"
        "\<not> is_union prop" "is_map prop"
    | (none) "\<not> is_ref prop" "\<not> is_primitive_type prop" "\<not> is_custom_type prop"
        "\<not> is_union prop" "\<not> is_map prop"
    by (auto simp: is_union_property_def)
  then show ?thesis
  proof cases
    case ref
    with assms show ?thesis
      by (auto simp: emit_property_ref bind_err_def split: sum.splits)
  next
    case prim
    from emit_property_primitive_registry [OF prim assms] show ?thesis
      by (auto dest!: deferred_tuple_D simp: reg_step_dict_set entry_ok_tuple)
  next
    case custom
    with assms show ?thesis
      by (auto simp: emit_property_custom bind_err_def split: sum.splits)
  next
    case union
    from assms union obtain st2 where
      2: "emit_alternatives
            (st\<lparr>counter := counter st + 1,
                out := out st @ [OneofOpen (sanitize_prop_name raw_name)]\<rparr>)
            (counter st) 0 (alternatives prop) = Inr st2"
      and 3: "st' = st2\<lparr>out := out st2 @ [OneofClose]\<rparr>"
      by (auto simp: emit_property_union bind_err_def split: sum.splits)
    from emit_alternatives_registry [OF 2] 3 show ?thesis by simp
  next
    case map
    from emit_property_map_registry [OF map assms] show ?thesis
      using reg_step_dict_set [OF entry_ok_array] by (elim disjE exE conjE) simp_all
  next
    case none
    with assms show ?thesis by (simp add: emit_property_unexpected)
  qed
qed

lemma emit_properties_registry:
  "emit_properties st ps = Inr st' \<Longrightarrow> reg_step (deferred_types st) (deferred_types st')"
proof (induction ps arbitrary: st)
  case Nil
  then show ?case by simp
next
  case (Cons p ps)
  from Cons.prems obtain st1 where
    1: "emit_property st (fst p, snd p) = Inr st1" and 2: "emit_properties st1 ps = Inr st'"
    by (auto split: sum.splits)
  from emit_property_registry [OF 1] Cons.IH [OF 2] show ?case
    by (auto intro: reg_step_trans)
qed

lemma emit_properties_reaches:
  "emit_properties st ps = Inr st' \<Longrightarrow> p \<in> set ps \<Longrightarrow>
   \<exists>sa sb. emit_property sa p = Inr sb
     \<and> fst ` set (deferred_types sb) \<subseteq> fst ` set (deferred_types st')"
proof (induction ps arbitrary: st)
  case Nil
  then show ?case by simp
next
  case (Cons a ps)
  from Cons.prems(1) obtain st1 where
    1: "emit_property st a = Inr st1" and 2: "emit_properties st1 ps = Inr st'"
    by (auto split: sum.splits)
  show ?case
  proof (cases "p = a")
    case True
    from emit_properties_registry [OF 2]
    have "fst ` set (deferred_types st1) \<subseteq> fst ` set (deferred_types st')"
      by (simp add: reg_step_def)
    with 1 True show ?thesis by blast
  next
    case False
    with Cons.prems(2) have "p \<in> set ps" by simp
    from Cons.IH [OF 2 this] show ?thesis .
  qed
qed

subsection \<open>What a definition and a run write\<close>

lemma opened_titles_append [simp]: "opened_titles (xs @ ys) = opened_titles xs @ opened_titles ys"
  by (induction xs) (auto split: option.splits)

lemma deferred_names_append [simp]: "deferred_names (xs @ ys) = deferred_names xs @ deferred_names ys"
  by (induction xs) (auto split: option.splits)

lemma field_line_primary: "is_field_line l \<Longrightarrow> is_primary_line l"
  by (cases l) simp_all

lemma field_lines_no_title: "\<forall>l \<in> set body. is_field_line l \<Longrightarrow> opened_titles body = []"
proof (induction body)
  case Nil
  then show ?case by simp
next
  case (Cons l body)
  then have "is_field_line l" by simp
  then have "opened_title l = None" by (cases l) simp_all
  with Cons show ?case by simp
qed

lemma no_titles: "\<forall>l \<in> set ls. opened_title l = None \<Longrightarrow> opened_titles ls = []"
  by (induction ls) auto

lemma emit_proto_entry_pointer:
  "emit_proto_entry mods out0 deferred0 sch (''#/definitions/'' @ n) =
     (case map_of (definitions sch) n of
        None \<Rightarrow> Inl KeyError
      | Some def \<Rightarrow>
          (case d_title def of
             None \<Rightarrow> Inl KeyError
           | Some t \<Rightarrow>
               if t \<noteq> n then Inl ValueError_title_mismatch
               else (case d_type def of
                       None \<Rightarrow> Inl KeyError
                     | Some ty \<Rightarrow>
                         if ty = ''string'' \<and> d_enum def \<noteq> None then
                           bind_err (emit_proto_enum out0 def) (\<lambda>out1. Inr (out1, deferred0))
                         else if ty = ''object'' then
                           emit_proto_message mods out0 deferred0 def
                         else Inl NotImplementedError)))"
  unfolding emit_proto_entry_def Let_def take_pointer_prefix drop_pointer_prefix by simp

lemma primary_lines_no_deferred:
  "\<forall>l \<in> set ls. is_primary_line l \<Longrightarrow> deferred_names ls = []"
proof (induction ls)
  case Nil
  then show ?case by simp
next
  case (Cons l ls)
  then have "is_primary_line l" by simp
  then have "deferred_name l = None" by (cases l) simp_all
  with Cons show ?case by simp
qed

lemma enum_properties_set:
  "enum_properties mods message = Inr props \<Longrightarrow>
   \<exists>raw. d_properties message = Some raw \<and> set props = set raw"
  by (auto simp: enum_properties_def bind_err_def split: option.splits sum.splits)

lemma emit_proto_message_frame:
  assumes "emit_proto_message mods out0 deferred0 message = Inr (out1, deferred1)"
  shows "\<exists>title raw body.
      d_title message = Some title \<and> d_properties message = Some raw
      \<and> out1 = out0 @ [MessageOpen title] @ body @ [Close, Blank]
      \<and> (\<forall>l \<in> set body. is_field_line l)
      \<and> reg_step deferred0 deferred1
      \<and> (\<forall>p \<in> set raw. \<exists>sa sb. emit_property sa p = Inr sb
            \<and> fst ` set (deferred_types sb) \<subseteq> fst ` set deferred1)"
proof -
  from assms obtain title props st where
    t: "d_title message = Some title" and p: "enum_properties mods message = Inr props"
    and e: "emit_properties
              \<lparr>out = out0 @ [MessageOpen title], deferred_types = deferred0, counter = 1\<rparr> props
            = Inr st"
    and o: "out1 = out st @ [Close, Blank]" and d: "deferred1 = deferred_types st"
    by (auto simp: emit_proto_message_def bind_err_def split: option.splits sum.splits)
  from enum_properties_set [OF p] obtain raw where
    raw: "d_properties message = Some raw" "set props = set raw" by blast
  from emit_properties_out [OF e] obtain body where
    b: "out st = (out0 @ [MessageOpen title]) @ body" "\<forall>l \<in> set body. is_field_line l"
    by auto
  have "out1 = out0 @ [MessageOpen title] @ body @ [Close, Blank]"
    using o b(1) by simp
  moreover have "reg_step deferred0 deferred1"
    using emit_properties_registry [OF e] d by simp
  moreover have "\<forall>p \<in> set raw. \<exists>sa sb. emit_property sa p = Inr sb
            \<and> fst ` set (deferred_types sb) \<subseteq> fst ` set deferred1"
    using emit_properties_reaches [OF e] raw(2) d by blast
  ultimately show ?thesis using t raw(1) b(2) by blast
qed

lemma emit_proto_enum_frame:
  assumes "emit_proto_enum out0 def = Inr out1"
  shows "\<exists>title block. d_title def = Some title \<and> out1 = out0 @ block
     \<and> (\<forall>l \<in> set block. is_primary_line l) \<and> opened_titles block = [title]"
proof -
  from assms obtain title vs where
    t: "d_title def = Some title"
    and o: "out1 = out0 @ ([EnumOpen title, EnumValue (render_value (upper title) ''unspecified'') 0]
                    @ map (\<lambda>(i, v). EnumValue (render_value (upper title) v) (i + 1))
                        (enumerate_from0 vs)
                    @ [Close, Blank])"
    by (auto simp: emit_proto_enum_def split: option.splits)
  let ?vals = "map (\<lambda>(i, v). EnumValue (render_value (upper title) v) (i + 1)) (enumerate_from0 vs)"
  have v: "\<forall>l \<in> set ?vals. is_primary_line l \<and> opened_title l = None"
    by auto
  then have "opened_titles ?vals = []"
    by (intro no_titles) blast
  then have "opened_titles ([EnumOpen title, EnumValue (render_value (upper title) ''unspecified'') 0]
                    @ ?vals @ [Close, Blank]) = [title]"
    by simp
  moreover have "\<forall>l \<in> set ([EnumOpen title, EnumValue (render_value (upper title) ''unspecified'') 0]
                    @ ?vals @ [Close, Blank]). is_primary_line l"
    using v by auto
  ultimately show ?thesis using t o by blast
qed

lemma emit_proto_entry_frame:
  assumes "emit_proto_entry mods out0 deferred0 sch (''#/definitions/'' @ n) = Inr (out1, deferred1)"
  shows "\<exists>def block. map_of (definitions sch) n = Some def \<and> d_title def = Some n
      \<and> out1 = out0 @ block \<and> (\<forall>l \<in> set block. is_primary_line l)
      \<and> opened_titles block = [n]
      \<and> reg_step deferred0 deferred1
      \<and> (d_type def = Some ''object''
           \<longrightarrow> emit_proto_message mods out0 deferred0 def = Inr (out1, deferred1))"
proof -
  note unf = assms [unfolded emit_proto_entry_pointer]
  from unf obtain def ty where
    m: "map_of (definitions sch) n = Some def" and t: "d_title def = Some n"
    and ty: "d_type def = Some ty"
    by (auto split: option.splits if_splits)
  show ?thesis
  proof (cases "ty = ''object''")
    case True
    with unf m t ty have e: "emit_proto_message mods out0 deferred0 def = Inr (out1, deferred1)"
      by simp
    from emit_proto_message_frame [OF e] t obtain body where
      b: "out1 = out0 @ [MessageOpen n] @ body @ [Close, Blank]"
      "\<forall>l \<in> set body. is_field_line l" "reg_step deferred0 deferred1"
      by auto
    have "\<forall>l \<in> set ([MessageOpen n] @ body @ [Close, Blank]). is_primary_line l"
      using b(2) by (auto simp: field_line_primary)
    moreover have "opened_titles ([MessageOpen n] @ body @ [Close, Blank]) = [n]"
      using field_lines_no_title [OF b(2)] by simp
    ultimately show ?thesis using m t b(1,3) e by blast
  next
    case False
    with unf m t ty have e: "emit_proto_enum out0 def = Inr out1" and d: "deferred1 = deferred0"
      by (auto simp: bind_err_def split: if_splits sum.splits)
    from emit_proto_enum_frame [OF e] t obtain block where
      "out1 = out0 @ block" "\<forall>l \<in> set block. is_primary_line l" "opened_titles block = [n]"
      by auto
    then show ?thesis using m t d ty False by auto
  qed
qed

lemma emit_entries_frame:
  "emit_entries mods sch s names = Inr s' \<Longrightarrow>
   \<exists>block. fst s' = fst s @ block \<and> (\<forall>l \<in> set block. is_primary_line l)
     \<and> opened_titles block = names \<and> reg_step (snd s) (snd s')"
proof (induction names arbitrary: s)
  case Nil
  then show ?case by simp
next
  case (Cons n names)
  from Cons.prems obtain s1 where
    1: "emit_proto_entry mods (fst s) (snd s) sch (''#/definitions/'' @ n) = Inr s1"
    and 2: "emit_entries mods sch s1 names = Inr s'"
    by (auto split: sum.splits)
  from emit_proto_entry_frame [of mods "fst s" "snd s" sch n "fst s1" "snd s1"] 1 obtain b1 where
    b1: "fst s1 = fst s @ b1" "\<forall>l \<in> set b1. is_primary_line l" "opened_titles b1 = [n]"
    "reg_step (snd s) (snd s1)"
    unfolding prod.collapse by blast
  from Cons.IH [OF 2] obtain b2 where
    b2: "fst s' = fst s1 @ b2" "\<forall>l \<in> set b2. is_primary_line l" "opened_titles b2 = names"
    "reg_step (snd s1) (snd s')"
    by blast
  have "fst s' = fst s @ (b1 @ b2)" using b1(1) b2(1) by simp
  moreover have "\<forall>l \<in> set (b1 @ b2). is_primary_line l" using b1(2) b2(2) by auto
  moreover have "opened_titles (b1 @ b2) = n # names" using b1(3) b2(3) by simp
  moreover have "reg_step (snd s) (snd s')" using b1(4) b2(4) by (rule reg_step_trans)
  ultimately show ?case by blast
qed

lemma emit_entries_reaches_keys:
  "emit_entries mods sch s names = Inr s' \<Longrightarrow> n \<in> set names \<Longrightarrow>
     \<exists>sa sb. emit_proto_entry mods (fst sa) (snd sa) sch (''#/definitions/'' @ n) = Inr sb
       \<and> fst ` set (snd sb) \<subseteq> fst ` set (snd s')"
proof (induction names arbitrary: s)
  case Nil
  then show ?case by simp
next
  case (Cons a names)
  from Cons.prems(1) obtain s1 where
    a: "emit_proto_entry mods (fst s) (snd s) sch (''#/definitions/'' @ a) = Inr s1"
    and rest: "emit_entries mods sch s1 names = Inr s'"
    by (auto split: sum.splits)
  show ?case
  proof (cases "n = a")
    case True
    from emit_entries_frame [OF rest] have "fst ` set (snd s1) \<subseteq> fst ` set (snd s')"
      by (auto simp: reg_step_def)
    with a True show ?thesis by blast
  next
    case False
    with Cons.prems(2) have "n \<in> set names" by simp
    from Cons.IH [OF rest this] show ?thesis .
  qed
qed

lemma run_reaches_property:
  assumes "emit_entries mods sch s (sort (map fst (definitions sch))) = Inr s'"
    and "map_of (definitions sch) n = Some def" and "d_type def = Some ''object''"
    and "d_properties def = Some raw" and "p \<in> set raw"
  shows "\<exists>sa sb. emit_property sa p = Inr sb
     \<and> fst ` set (deferred_types sb) \<subseteq> fst ` set (snd s')"
proof -
  have "(n, def) \<in> set (definitions sch)"
    using assms(2) by (rule map_of_SomeD)
  then have "n \<in> fst ` set (definitions sch)"
    by (rule rev_image_eqI) simp
  then have "n \<in> set (sort (map fst (definitions sch)))"
    by simp
  from emit_entries_reaches_keys [OF assms(1) this] obtain sa sb where
    e0: "emit_proto_entry mods (fst sa) (snd sa) sch (''#/definitions/'' @ n) = Inr sb"
    and k: "fst ` set (snd sb) \<subseteq> fst ` set (snd s')"
    by blast
  obtain o1 d1 where sb: "sb = (o1, d1)" by (cases sb)
  from emit_proto_entry_frame [OF e0 [unfolded sb]] obtain def' where
    1: "map_of (definitions sch) n = Some def'"
    and 2: "d_type def' = Some ''object''
       \<longrightarrow> emit_proto_message mods (fst sa) (snd sa) def' = Inr (o1, d1)"
    by blast
  from 1 assms(2) have "def' = def" by simp
  with 2 assms(3) have "emit_proto_message mods (fst sa) (snd sa) def = Inr (o1, d1)"
    by blast
  from emit_proto_message_frame [OF this] obtain raw' where
    3: "d_properties def = Some raw'"
    and 4: "\<forall>p \<in> set raw'. \<exists>sc sd. emit_property sc p = Inr sd
            \<and> fst ` set (deferred_types sd) \<subseteq> fst ` set d1"
    by blast
  from 3 assms(4) have "raw' = raw" by simp
  with 4 assms(5) obtain sc sd where
    5: "emit_property sc p = Inr sd" and 6: "fst ` set (deferred_types sd) \<subseteq> fst ` set d1"
    by blast
  from k sb have "fst ` set d1 \<subseteq> fst ` set (snd s')" by simp
  with 6 have "fst ` set (deferred_types sd) \<subseteq> fst ` set (snd s')"
    by (rule subset_trans)
  with 5 show ?thesis by (intro exI conjI)
qed

subsection \<open>Failing runs\<close>




lemmas run_simps =
  generate_proto_from_pydantic_def generate_lines_def emit_proto_entry_def emit_proto_enum_def
  render_value_def upper_def upper_char_def lower_letters_def upper_letters_def
  enumerate_from0_def header_def helpers_def emit_deferred_def

subsection \<open>Union alternatives\<close>





subsection \<open>Title mismatch and unsupported shapes\<close>
























subsection \<open>What the deferred types are written as\<close>

lemma emit_deferred_append:
  "emit_deferred out0 d =
     (case emit_deferred [] d of Inl e \<Rightarrow> Inl e | Inr ls \<Rightarrow> Inr (out0 @ ls))"
  by (cases d) (auto simp: emit_deferred_def bind_err_def split: deferred_type.splits sum.splits)

lemma emit_deferred_block:
  "emit_deferred out0 d = Inr out1 \<Longrightarrow> out1 = out0 @ deferred_block d"
  by (subst (asm) emit_deferred_append) (auto simp: deferred_block_def split: sum.splits)

lemma no_deferred_names:
  "\<forall>l \<in> set ls. deferred_name l = None \<Longrightarrow> deferred_names ls = []"
  by (induction ls) auto

lemma tuple_fields_no_name:
  "deferred_names (map (\<lambda>(i, vtype). TupleField vtype i (g i)) xs) = []"
  by (rule no_deferred_names) auto

lemma deferred_block_lines:
  "l \<in> set (deferred_block d) \<Longrightarrow> is_deferred_line l \<and> (deferred_name l = Some k \<longrightarrow> k = fst d)"
  by (cases d)
     (auto simp: deferred_block_def emit_deferred_def bind_err_def
       split: deferred_type.splits sum.splits)

lemma deferred_block_names:
  "emit_deferred out0 d = Inr out1 \<Longrightarrow> deferred_names (deferred_block d) = [fst d]"
  by (subst (asm) emit_deferred_append, cases d)
     (auto simp: deferred_block_def emit_deferred_def bind_err_def tuple_fields_no_name
       split: deferred_type.splits sum.splits)

lemma emit_deferreds_frame:
  "emit_deferreds out0 ds = Inr out1 \<Longrightarrow>
   out1 = out0 @ concat (map deferred_block ds)
   \<and> deferred_names (concat (map deferred_block ds)) = map fst ds"
proof (induction ds arbitrary: out0)
  case Nil
  then show ?case by simp
next
  case (Cons d ds)
  from Cons.prems obtain o1 where
    1: "emit_deferred out0 d = Inr o1" and 2: "emit_deferreds o1 ds = Inr out1"
    by (auto split: sum.splits)
  from emit_deferred_block [OF 1] deferred_block_names [OF 1] Cons.IH [OF 2]
  show ?case by simp
qed

lemma map_sort_key: "map f (sort_key f xs) = sort (map f xs)"
proof (induction xs)
  case Nil
  then show ?case by simp
next
  case (Cons x xs)
  have "map f (insort_key f x ys) = insort (f x) (map f ys)" for ys
    by (induction ys) auto
  with Cons show ?case by simp
qed

lemma header_lines: "deferred_names header = []" "opened_titles header = []"
  by (simp_all add: header_def)

lemma helpers_lines: "deferred_names helpers = []" "opened_titles helpers = []"
  by (simp_all add: helpers_def)

text \<open>The parts of the document of a run that returns.\<close>

lemma run_structure:
  assumes "generate_lines mods sch = Inr ls"
  shows "\<exists>s prim.
      emit_entries mods sch (header, []) (sort (map fst (definitions sch))) = Inr s
      \<and> (\<forall>l \<in> set prim. is_primary_line l)
      \<and> opened_titles prim = sort (map fst (definitions sch))
      \<and> reg_ok (snd s)
      \<and> ls = header @ prim @ concat (map deferred_block (sort_key fst (snd s))) @ helpers
      \<and> deferred_names (concat (map deferred_block (sort_key fst (snd s))))
          = sort (map fst (snd s))"
proof -
  from assms obtain s o1 where
    e: "emit_entries mods sch (header, []) (sort (map fst (definitions sch))) = Inr s"
    and d: "emit_deferreds (fst s) (sort_key fst (snd s)) = Inr o1"
    and l: "ls = o1 @ helpers"
    by (auto simp: generate_lines_def bind_err_def split: sum.splits)
  from emit_entries_frame [OF e] obtain prim where
    p: "fst s = header @ prim" "\<forall>l \<in> set prim. is_primary_line l"
    "opened_titles prim = sort (map fst (definitions sch))" "reg_step [] (snd s)"
    by auto
  have "reg_ok (snd s)" using p(4) by (simp add: reg_step_def reg_ok_def)
  moreover from emit_deferreds_frame [OF d]
  have "o1 = fst s @ concat (map deferred_block (sort_key fst (snd s)))"
    and "deferred_names (concat (map deferred_block (sort_key fst (snd s))))
          = sort (map fst (snd s))"
    by (simp_all add: map_sort_key)
  ultimately show ?thesis using e p(1,2,3) l by auto
qed




subsection \<open>Determinism and order of the document\<close>












lemma captures_lines_run: "generate_lines match_class captures_schema = Inr captures_lines"
  by (simp add: captures_schema_def captures_lines_def match_def_def match_class_def
      run_simps eval_simps)






subsection \<open>Deferred definitions in the document\<close>

lemma emit_property_map_array:
  assumes "\<not> is_ref p" and "\<not> is_primitive_type p" and "\<not> is_custom_type p"
    and "\<not> is_union p" and "is_map p" and "p_additionalProperties p = Some ap"
    and "is_array ap = Inr True" and "p_items ap = Some (ItemsDict item_def)"
  shows "emit_property st (raw_name, p) =
     bind_err (get_type_name item_def)
       (\<lambda>t. Inr (st\<lparr>counter := counter st + 1,
                    deferred_types :=
                      dict_set (deferred_types st) (''Array_'' @ t)
                        (DeferredArrayType (''Array_'' @ t) item_def),
                    out := out st @ [MapField (''Array_'' @ t)
                                       (sanitize_prop_name raw_name) (counter st)]\<rparr>))"
  using assms by (simp add: emit_property_def Let_def bind_err_def)

lemma emit_property_map_plain:
  assumes "\<not> is_ref p" and "\<not> is_primitive_type p" and "\<not> is_custom_type p"
    and "\<not> is_union p" and "is_map p" and "p_additionalProperties p = Some ap"
    and "is_array ap = Inr False"
  shows "emit_property st (raw_name, p) =
     bind_err (get_type_name ap)
       (\<lambda>vtype. Inr (st\<lparr>counter := counter st + 1,
                        out := out st @ [MapField vtype (sanitize_prop_name raw_name)
                                           (counter st)]\<rparr>))"
  using assms by (simp add: emit_property_def Let_def bind_err_def)

lemma no_names_filter:
  "deferred_names ls = [] \<Longrightarrow> filter (\<lambda>l. deferred_name l = Some k) ls = []"
  by (induction ls) (auto split: option.splits)

lemma filter_no_name:
  "k \<notin> fst ` set ds \<Longrightarrow>
   filter (\<lambda>l. deferred_name l = Some k) (concat (map deferred_block ds)) = []"
proof (induction ds)
  case Nil
  then show ?case by simp
next
  case (Cons d ds)
  have "filter (\<lambda>l. deferred_name l = Some k) (deferred_block d) = []"
  proof (rule filter_False, rule ballI)
    fix l
    assume "l \<in> set (deferred_block d)"
    from deferred_block_lines [OF this, of k] Cons.prems
    show "\<not> deferred_name l = Some k" by auto
  qed
  with Cons show ?case by simp
qed

lemma filter_named_blocks:
  "distinct (map fst ds) \<Longrightarrow> (k, v) \<in> set ds \<Longrightarrow>
   filter (\<lambda>l. deferred_name l = Some k) (concat (map deferred_block ds))
     = filter (\<lambda>l. deferred_name l = Some k) (deferred_block (k, v))"
proof (induction ds)
  case Nil
  then show ?case by simp
next
  case (Cons d ds)
  show ?case
  proof (cases "d = (k, v)")
    case True
    with Cons.prems(1) have "k \<notin> fst ` set ds" by simp
    from filter_no_name [OF this] True show ?thesis by simp
  next
    case False
    with Cons.prems(2) have mem: "(k, v) \<in> set ds" by simp
    then have "k \<in> fst ` set ds" by (rule rev_image_eqI) simp
    with Cons.prems(1) have "fst d \<noteq> k" by auto
    then have "k \<notin> fst ` set [d]" by simp
    from filter_no_name [OF this]
    have "filter (\<lambda>l. deferred_name l = Some k) (deferred_block d) = []" by simp
    moreover from Cons.prems(1) have "distinct (map fst ds)" by simp
    ultimately show ?thesis using Cons.IH mem by simp
  qed
qed

lemma emit_deferreds_reaches:
  "emit_deferreds out0 ds = Inr out1 \<Longrightarrow> e \<in> set ds \<Longrightarrow>
   \<exists>oa ob. emit_deferred oa e = Inr ob"
proof (induction ds arbitrary: out0)
  case Nil
  then show ?case by simp
next
  case (Cons d ds)
  from Cons.prems(1) obtain o1 where
    1: "emit_deferred out0 d = Inr o1" and 2: "emit_deferreds o1 ds = Inr out1"
    by (auto split: sum.splits)
  show ?case
  proof (cases "e = d")
    case True
    with 1 show ?thesis by blast
  next
    case False
    with Cons.prems(2) have "e \<in> set ds" by simp
    from Cons.IH [OF 2 this] show ?thesis .
  qed
qed

text \<open>
  In the document of a run that returns, the deferred definition of a registered name
  is the one written for the registry's entry of that name.
\<close>

lemma run_deferred_definition:
  assumes "generate_lines mods sch = Inr ls"
    and "emit_entries mods sch (header, []) (sort (map fst (definitions sch))) = Inr s"
    and "(k, v) \<in> set (snd s)"
  shows "filter (\<lambda>l. deferred_name l = Some k) ls
           = filter (\<lambda>l. deferred_name l = Some k) (deferred_block (k, v))"
    and "\<exists>oa ob. emit_deferred oa (k, v) = Inr ob"
    and "entry_ok k v"
proof -
  from assms(1,2) obtain o1 where
    d: "emit_deferreds (fst s) (sort_key fst (snd s)) = Inr o1"
    and l: "ls = o1 @ helpers"
    by (auto simp: generate_lines_def bind_err_def split: sum.splits)
  from emit_entries_frame [OF assms(2)] obtain prim where
    p: "fst s = header @ prim" "\<forall>l \<in> set prim. is_primary_line l" "reg_step [] (snd s)"
    by auto
  have ok: "reg_ok (snd s)" using p(3) by (simp add: reg_step_def reg_ok_def)
  let ?ds = "sort_key fst (snd s)"
  let ?F = "filter (\<lambda>l. deferred_name l = Some k)"
  from emit_deferreds_frame [OF d] have o1: "o1 = fst s @ concat (map deferred_block ?ds)"
    by simp
  have "deferred_names prim = []" using p(2) by (rule primary_lines_no_deferred)
  then have 1: "?F prim = []" by (rule no_names_filter)
  have 2: "?F header = []" using header_lines(1) by (rule no_names_filter)
  have 3: "?F helpers = []" using helpers_lines(1) by (rule no_names_filter)
  have "?F ls = ?F (concat (map deferred_block ?ds))"
    unfolding l o1 p(1) filter_append 1 2 3 by simp
  moreover have "distinct (map fst ?ds)"
    using ok by (simp add: map_sort_key reg_ok_def)
  moreover have mem: "(k, v) \<in> set ?ds" using assms(3) by simp
  ultimately show "?F ls = ?F (deferred_block (k, v))"
    by (simp only: filter_named_blocks)
  from emit_deferreds_reaches [OF d mem] show "\<exists>oa ob. emit_deferred oa (k, v) = Inr ob" .
  from ok assms(3) show "entry_ok k v" by (auto simp: reg_ok_def)
qed

lemma array_entry_block:
  assumes "entry_ok (''Array_'' @ X) v"
  shows "deferred_block (''Array_'' @ X, v) = [ArrayWrapper (''Array_'' @ X) X]"
proof (cases v)
  case (DeferredArrayType n item)
  with assms have "get_type_name item = Inr X" by (auto simp: entry_ok_def)
  with DeferredArrayType show ?thesis
    by (simp add: deferred_block_def emit_deferred_def bind_err_def)
next
  case (DeferredTupleType n c its)
  with assms show ?thesis by (simp add: entry_ok_def)
qed

lemma tuple_entry_block:
  assumes "entry_ok k v" and "take 6 k \<noteq> ''Array_''" and "emit_deferred oa (k, v) = Inr ob"
  shows "filter (\<lambda>l. deferred_name l = Some k) (deferred_block (k, v)) = [TupleOpen k]"
proof (cases v)
  case (DeferredArrayType n item)
  with assms(1,2) show ?thesis by (auto simp: entry_ok_def)
next
  case (DeferredTupleType n c its)
  from assms(3) obtain ls where "emit_deferred [] (k, v) = Inr ls"
    by (subst (asm) emit_deferred_append) (auto split: sum.splits)
  with DeferredTupleType obtain vtypes where
    "deferred_block (k, v) =
       TupleOpen k # map (\<lambda>(i, vtype). TupleField vtype i (i + 1)) (enumerate_from0 vtypes)
       @ [TupleClose]"
    by (auto simp: deferred_block_def emit_deferred_def bind_err_def split: sum.splits)
  moreover have "filter (\<lambda>l. deferred_name l = Some k)
       (map (\<lambda>(i, vtype). TupleField vtype i (i + 1)) (enumerate_from0 vtypes)) = []"
    by (rule no_names_filter) (rule tuple_fields_no_name)
  ultimately show ?thesis by simp
qed

subsection \<open>Map properties\<close>

lemma str_nat_digits [simp]:
  "str_nat 0 = ''0''" "str_nat 1 = ''1''" "str_nat 2 = ''2''" "str_nat 3 = ''3''"
  by (simp_all add: str_nat.simps digit_def)

text \<open>
  C8 (as the code has it). A map property whose value is an array of items of type name
  \<open>X\<close> registers the array wrapper \<open>Array_X\<close> and is written as the line
  \<open>  map <string, Array_X> name = n;\<close> (two spaces of indentation, and a space between
  \<open>map\<close> and \<open><\<close>); the document of a run that returns holds exactly one deferred
  definition named \<open>Array_X\<close>, the line
  \<open>message Array_X { repeated X values = 1; }\<close>. A map whose value is no array is
  written as a map field of the value's type name.
\<close>

theorem map_property_emission:
  assumes "\<not> is_ref p" and "\<not> is_primitive_type p" and "\<not> is_custom_type p"
    and "\<not> is_union p" and "is_map p" and "p_additionalProperties p = Some ap"
  shows "(is_array ap = Inr True \<and> p_items ap = Some (ItemsDict item) \<and> get_type_name item = Inr X
        \<longrightarrow> emit_property st (raw_name, p) =
              Inr (st\<lparr>counter := counter st + 1,
                      deferred_types :=
                        dict_set (deferred_types st) (''Array_'' @ X)
                          (DeferredArrayType (''Array_'' @ X) item),
                      out := out st @ [MapField (''Array_'' @ X)
                                         (sanitize_prop_name raw_name) (counter st)]\<rparr>)
          \<and> render_line (MapField (''Array_'' @ X) name i) =
              ''  map <string, Array_'' @ X @ ''> '' @ name @ '' = '' @ str_nat i @ '';''
          \<and> (generate_lines mods sch = Inr ls \<and> map_of (definitions sch) n = Some dfn
               \<and> d_type dfn = Some ''object'' \<and> d_properties dfn = Some raw
               \<and> (raw_name, p) \<in> set raw
             \<longrightarrow> filter (\<lambda>l. deferred_name l = Some (''Array_'' @ X)) ls
                   = [ArrayWrapper (''Array_'' @ X) X])
          \<and> render_line (ArrayWrapper (''Array_'' @ X) X) =
              ''message Array_'' @ X @ '' { repeated '' @ X @ '' values = 1; }'' @ [CHR 0x0A])
     \<and> (is_array ap = Inr False \<and> get_type_name ap = Inr V
        \<longrightarrow> emit_property st (raw_name, p) =
              Inr (st\<lparr>counter := counter st + 1,
                      out := out st @ [MapField V (sanitize_prop_name raw_name) (counter st)]\<rparr>)
          \<and> render_line (MapField V name i) =
              ''  map <string, '' @ V @ ''> '' @ name @ '' = '' @ str_nat i @ '';'')"
proof (intro conjI impI)
  assume a: "is_array ap = Inr True \<and> p_items ap = Some (ItemsDict item) \<and> get_type_name item = Inr X"
  then show "emit_property st (raw_name, p) =
              Inr (st\<lparr>counter := counter st + 1,
                      deferred_types :=
                        dict_set (deferred_types st) (''Array_'' @ X)
                          (DeferredArrayType (''Array_'' @ X) item),
                      out := out st @ [MapField (''Array_'' @ X)
                                         (sanitize_prop_name raw_name) (counter st)]\<rparr>)"
    using emit_property_map_array [OF assms, of item st raw_name] by (simp add: bind_err_def)
next
  show "render_line (MapField (''Array_'' @ X) name i) =
              ''  map <string, Array_'' @ X @ ''> '' @ name @ '' = '' @ str_nat i @ '';''"
    by simp
next
  show "render_line (ArrayWrapper (''Array_'' @ X) X) =
              ''message Array_'' @ X @ '' { repeated '' @ X @ '' values = 1; }'' @ [CHR 0x0A]"
    by simp
next
  assume a: "is_array ap = Inr True \<and> p_items ap = Some (ItemsDict item) \<and> get_type_name item = Inr X"
    and r: "generate_lines mods sch = Inr ls \<and> map_of (definitions sch) n = Some dfn
               \<and> d_type dfn = Some ''object'' \<and> d_properties dfn = Some raw
               \<and> (raw_name, p) \<in> set raw"
  let ?k = "''Array_'' @ X"
  from r obtain s where
    e: "emit_entries mods sch (header, []) (sort (map fst (definitions sch))) = Inr s"
    by (auto simp: generate_lines_def bind_err_def split: sum.splits)
  from r have r1: "map_of (definitions sch) n = Some dfn" and r2: "d_type dfn = Some ''object''"
    and r3: "d_properties dfn = Some raw" and r4: "(raw_name, p) \<in> set raw" and g: "generate_lines mods sch = Inr ls"
    by simp_all
  from run_reaches_property [OF e r1 r2 r3 r4] obtain sa sb where
    1: "emit_property sa (raw_name, p) = Inr sb"
    and 2: "fst ` set (deferred_types sb) \<subseteq> fst ` set (snd s)"
    by blast
  from a have "emit_property sa (raw_name, p) =
      Inr (sa\<lparr>counter := counter sa + 1,
              deferred_types := dict_set (deferred_types sa) ?k (DeferredArrayType ?k item),
              out := out sa @ [MapField ?k (sanitize_prop_name raw_name) (counter sa)]\<rparr>)"
    using emit_property_map_array [OF assms, of item sa raw_name] by (simp add: bind_err_def)
  with 1 have "deferred_types sb = dict_set (deferred_types sa) ?k (DeferredArrayType ?k item)"
    by auto
  then have "?k \<in> fst ` set (deferred_types sb)"
    by (simp only: keys_dict_set insertI1)
  with 2 have "?k \<in> fst ` set (snd s)" by (rule subsetD)
  then obtain v where v: "(?k, v) \<in> set (snd s)" by auto
  have "entry_ok ?k v" by (rule run_deferred_definition(3) [OF g e v])
  then have "deferred_block (?k, v) = [ArrayWrapper ?k X]" by (rule array_entry_block)
  then have "filter (\<lambda>l. deferred_name l = Some ?k) (deferred_block (?k, v))
               = [ArrayWrapper ?k X]"
    by (simp only: filter.simps deferred_name.simps refl if_True)
  with run_deferred_definition(1) [OF g e v]
  show "filter (\<lambda>l. deferred_name l = Some ?k) ls = [ArrayWrapper ?k X]"
    by (rule trans)
next
  assume b: "is_array ap = Inr False \<and> get_type_name ap = Inr V"
  then show "emit_property st (raw_name, p) =
              Inr (st\<lparr>counter := counter st + 1,
                      out := out st @ [MapField V (sanitize_prop_name raw_name) (counter st)]\<rparr>)"
    using emit_property_map_plain [OF assms, of st raw_name] by (simp add: bind_err_def)
next
  show "render_line (MapField V name i) =
              ''  map <string, '' @ V @ ''> '' @ name @ '' = '' @ str_nat i @ '';''"
    by simp
qed

theorem map_property_emission_witness:
  "\<not> is_ref (map_to (array_of (ref_to ''Address'')))
   \<and> \<not> is_primitive_type (map_to (array_of (ref_to ''Address'')))
   \<and> \<not> is_custom_type (map_to (array_of (ref_to ''Address'')))
   \<and> \<not> is_union (map_to (array_of (ref_to ''Address'')))
   \<and> is_map (map_to (array_of (ref_to ''Address'')))
   \<and> p_additionalProperties (map_to (array_of (ref_to ''Address''))) = Some (array_of (ref_to ''Address''))
   \<and> is_array (array_of (ref_to ''Address'')) = Inr True
   \<and> p_items (array_of (ref_to ''Address'')) = Some (ItemsDict (ref_to ''Address''))
   \<and> get_type_name (ref_to ''Address'') = Inr ''Address''
   \<and> emit_property (first_state []) (''captures'', map_to (array_of (ref_to ''Address'')))
       = Inr \<lparr>out = [MapField ''Array_Address'' ''captures'' 1],
              deferred_types =
                [(''Array_Address'', DeferredArrayType ''Array_Address'' (ref_to ''Address''))],
              counter = 2\<rparr>
   \<and> generate_lines match_class captures_schema = Inr captures_lines
   \<and> map_of (definitions captures_schema) ''Match'' = Some match_def
   \<and> d_type match_def = Some ''object''
   \<and> d_properties match_def
       = Some [(''success'', of_type ''boolean''),
               (''captures'', map_to (array_of (ref_to ''Address'')))]
   \<and> filter (\<lambda>l. deferred_name l = Some ''Array_Address'') captures_lines
       = [ArrayWrapper ''Array_Address'' ''Address'']
   \<and> is_map (map_to (of_type ''string''))
   \<and> is_array (of_type ''string'') = Inr False
   \<and> get_type_name (of_type ''string'') = Inr ''string''
   \<and> emit_property (first_state []) (''strings'', map_to (of_type ''string''))
       = Inr \<lparr>out = [MapField ''string'' ''strings'' 1], deferred_types = [], counter = 2\<rparr>"
  using
    map_property_emission [where p = "map_to (array_of (ref_to ''Address''))"
      and ap = "array_of (ref_to ''Address'')" and item = "ref_to ''Address''"
      and X = "''Address''" and st = "first_state []" and raw_name = "''captures''"
      and mods = match_class and sch = captures_schema and ls = captures_lines
      and n = "''Match''" and dfn = match_def
      and raw = "[(''success'', of_type ''boolean''),
                  (''captures'', map_to (array_of (ref_to ''Address'')))]"]
    map_property_emission [where p = "map_to (of_type ''string'')" and ap = "of_type ''string''"
      and V = "''string''" and st = "first_state []" and raw_name = "''strings''"]
    captures_lines_run
  by (simp add: first_state_def captures_schema_def match_def_def eval_simps)

text \<open>
  The property \<open>captures\<close> of \<open>Match\<close>: the line written is
  \<open>  map <string, Array_Address> captures = 2;\<close>, and no line of the document is
  \<open>map<string, Array_Address> captures = 2;\<close>.
\<close>

theorem map_property_emission_counterexample:
  "generate_proto_from_pydantic match_class captures_schema = Inr (map render_line captures_lines)
   \<and> MapField ''Array_Address'' ''captures'' 2 \<in> set captures_lines
   \<and> render_line (MapField ''Array_Address'' ''captures'' 2)
       = ''  '' @ ''map <string, Array_Address> captures = 2;''
   \<and> ''map <string, Array_Address> captures = 2;'' \<noteq> ''map<string, Array_Address> captures = 2;''
   \<and> ''map<string, Array_Address> captures = 2;'' \<notin> set (map render_line captures_lines)"
proof -
  have "generate_proto_from_pydantic match_class captures_schema
          = Inr (map render_line captures_lines)"
    by (simp add: generate_proto_from_pydantic_def captures_lines_run bind_err_def)
  moreover have "MapField ''Array_Address'' ''captures'' 2 \<in> set captures_lines"
    by (simp add: captures_lines_def)
  moreover have "render_line (MapField ''Array_Address'' ''captures'' 2)
       = ''  '' @ ''map <string, Array_Address> captures = 2;''"
    by simp
  moreover have "''map<string, Array_Address> captures = 2;'' \<notin> set (map render_line captures_lines)"
    by (simp add: captures_lines_def header_def helpers_def)
  ultimately show ?thesis by simp
qed

subsection \<open>Registering a deferred type again\<close>

lemma dict_set_as_map:
  "distinct (map fst r) \<Longrightarrow> k \<in> fst ` set r \<Longrightarrow>
   dict_set r k v = map (\<lambda>e. if fst e = k then (k, v) else e) r"
proof (induction r)
  case Nil
  then show ?case by simp
next
  case (Cons a r)
  show ?case
  proof (cases "fst a = k")
    case True
    with Cons.prems(1) have "k \<notin> fst ` set r" by simp
    then have "\<forall>e \<in> set r. fst e \<noteq> k" by (auto simp: image_iff)
    then have "map (\<lambda>e. if fst e = k then (k, v) else e) r = r"
      by (simp add: map_idI)
    with True show ?thesis by (cases a) simp
  next
    case False
    with Cons.prems(2) have "k \<in> fst ` set r" by auto
    with Cons False show ?thesis by (cases a) simp
  qed
qed

lemma sort_key_map_same_key:
  assumes "\<And>e. fst (g e) = fst e"
  shows "sort_key fst (map g xs) = map g (sort_key fst xs)"
proof (induction xs)
  case Nil
  then show ?case by simp
next
  case (Cons x xs)
  have "insort_key fst (g x) (map g ys) = map g (insort_key fst x ys)" for ys
    by (induction ys) (simp_all add: assms)
  with Cons show ?case by simp
qed

lemma emit_deferreds_map:
  "(\<And>e out0. e \<in> set ds \<Longrightarrow> emit_deferred out0 (g e) = emit_deferred out0 e) \<Longrightarrow>
   emit_deferreds out0 (map g ds) = emit_deferreds out0 ds"
  by (induction ds arbitrary: out0) (simp_all split: sum.splits)

lemma reregistration:
  assumes "distinct (map fst r)" and "map_of r k = Some v0"
    and "emit_deferred [] (k, v) = emit_deferred [] (k, v0)"
  shows "emit_deferreds out0 (sort_key fst (dict_set r k v)) = emit_deferreds out0 (sort_key fst r)"
proof -
  let ?g = "\<lambda>e. if fst e = k then (k, v) else e"
  have mem: "(k, v0) \<in> set r" using assms(2) by (rule map_of_SomeD)
  then have "k \<in> fst ` set r" by (rule rev_image_eqI) simp
  with assms(1) have "dict_set r k v = map ?g r" by (rule dict_set_as_map)
  moreover have "sort_key fst (map ?g r) = map ?g (sort_key fst r)"
    by (rule sort_key_map_same_key) simp
  moreover have "emit_deferreds out0 (map ?g (sort_key fst r)) = emit_deferreds out0 (sort_key fst r)"
  proof (rule emit_deferreds_map)
    fix e o1
    assume "e \<in> set (sort_key fst r)"
    then have e: "e \<in> set r" by simp
    show "emit_deferred o1 (?g e) = emit_deferred o1 e"
    proof (cases "fst e = k")
      case True
      then obtain v1 where e1: "e = (k, v1)" by (cases e) auto
      with e assms(1) have "map_of r k = Some v1" by simp
      with assms(2) have "v1 = v0" by simp
      with e1 True assms(3) show ?thesis
        by (simp add: emit_deferred_append [of o1])
    next
      case False
      then show ?thesis by simp
    qed
  qed
  ultimately show ?thesis by simp
qed

lemma same_names_same_tuple_name:
  assumes "is_tuple p1" and "is_tuple p2"
    and "p_items p1 = Some (ItemsList xs1)" and "p_items p2 = Some (ItemsList xs2)"
    and "map get_type_name xs1 = map get_type_name xs2"
    and "(p_maxItems p1 = Some 2) = (p_maxItems p2 = Some 2)"
  shows "get_tuple_type_name p1 = get_tuple_type_name p2"
proof -
  have 1: "get_tuple_type_name p1 =
      bind_err (sequence_err (map get_type_name xs1))
        (\<lambda>names. Inr ((if p_maxItems p1 = Some 2 then ''Pair'' else ''Tuple'')
                         @ ''_'' @ join ''_'' names))"
    by (subst get_tuple_type_name.simps) (simp add: assms(1,3))
  have 2: "get_tuple_type_name p2 =
      bind_err (sequence_err (map get_type_name xs2))
        (\<lambda>names. Inr ((if p_maxItems p2 = Some 2 then ''Pair'' else ''Tuple'')
                         @ ''_'' @ join ''_'' names))"
    by (subst get_tuple_type_name.simps) (simp add: assms(2,4))
  show ?thesis unfolding 1 2 assms(5) assms(6) ..
qed

lemma emit_property_tuple_registers:
  assumes "\<not> is_ref p" and "is_tuple p" and "get_tuple_type_name p = Inr T"
    and "emit_property st (raw_name, p) = Inr st'"
  shows "T \<in> fst ` set (deferred_types st')"
proof -
  from assms(2) have prim: "is_primitive_type p" by (rule is_tuple_D(2))
  from assms(2,3) have n: "get_primitive_type_name p = Inr T"
    by (simp add: get_primitive_type_name_tuple)
  from assms(1,2,4) prim n obtain d where
    "deferred_types st' = dict_set (deferred_types st) T d"
    by (auto simp: emit_property_def Let_def bind_err_def split: sum.splits)
  then show ?thesis by (simp only: keys_dict_set insertI1)
qed

lemma run_tuple_definition:
  assumes "generate_lines mods sch = Inr ls"
    and "map_of (definitions sch) n = Some dfn" and "d_type dfn = Some ''object''"
    and "d_properties dfn = Some raw" and "(raw_name, p) \<in> set raw"
    and "\<not> is_ref p" and "is_tuple p" and "get_tuple_type_name p = Inr T"
  shows "filter (\<lambda>l. deferred_name l = Some T) ls = [TupleOpen T]"
proof -
  from assms(1) obtain s where
    e: "emit_entries mods sch (header, []) (sort (map fst (definitions sch))) = Inr s"
    by (auto simp: generate_lines_def bind_err_def split: sum.splits)
  from run_reaches_property [OF e assms(2-5)] obtain sa sb where
    1: "emit_property sa (raw_name, p) = Inr sb"
    and 2: "fst ` set (deferred_types sb) \<subseteq> fst ` set (snd s)"
    by blast
  from emit_property_tuple_registers [OF assms(6-8) 1] 2
  have "T \<in> fst ` set (snd s)" by (rule rev_subsetD)
  then obtain v where v: "(T, v) \<in> set (snd s)" by auto
  note rd = run_deferred_definition [OF assms(1) e v]
  from rd(2) obtain oa ob where ok: "emit_deferred oa (T, v) = Inr ob" by blast
  have "take 6 T \<noteq> ''Array_''" using assms(8) by (rule tuple_name_not_array)
  with rd(3) have "filter (\<lambda>l. deferred_name l = Some T) (deferred_block (T, v)) = [TupleOpen T]"
    using ok by (rule tuple_entry_block)
  with rd(1) show ?thesis by (rule trans)
qed

lemma pairs_lines_run: "generate_lines pairs_classes pairs_schema = Inr pairs_lines"
  by (simp add: pairs_schema_def pairs_lines_def pairs_classes_def pair_by_refs_def
      pair_by_title_def run_simps eval_simps)

lemma map_of_dict_set: "map_of (dict_set r k v) = (map_of r)(k \<mapsto> v)"
  by (induction r) (auto simp: fun_eq_iff)

lemma drained_after_registration:
  assumes "distinct (map fst r)" and "k \<in> fst ` set r"
  shows "sort_key fst (dict_set r k v)
           = map (\<lambda>e. if fst e = k then (k, v) else e) (sort_key fst r)"
proof -
  have "dict_set r k v = map (\<lambda>e. if fst e = k then (k, v) else e) r"
    using assms by (rule dict_set_as_map)
  moreover have "sort_key fst (map (\<lambda>e. if fst e = k then (k, v) else e) r)
      = map (\<lambda>e. if fst e = k then (k, v) else e) (sort_key fst r)"
    by (rule sort_key_map_same_key) simp
  ultimately show ?thesis by simp
qed

lemma emit_property_tuple_stores:
  assumes "\<not> is_ref p" and "is_tuple p" and "get_tuple_type_name p = Inr T"
    and "p_minItems p = Some mn" and "p_items p = Some its"
    and "emit_property st (raw_name, p) = Inr st'"
  shows "map_of (deferred_types st') T = Some (DeferredTupleType T mn its)"
proof -
  from assms(2) have prim: "is_primitive_type p" by (rule is_tuple_D(2))
  from assms(2,3) have n: "get_primitive_type_name p = Inr T"
    by (simp add: get_primitive_type_name_tuple)
  from assms(1,2,4,5,6) prim n
  have "deferred_types st' = dict_set (deferred_types st) T (DeferredTupleType T mn its)"
    by (auto simp: emit_property_def Let_def bind_err_def deferred_tuple_def split: sum.splits)
  then show ?thesis by (simp add: map_of_dict_set)
qed

lemma array_wrappers_written_alike:
  assumes "get_type_name item0 = Inr X0" and "k = ''Array_'' @ X0"
    and "get_type_name item = Inr X" and "k = ''Array_'' @ X"
  shows "emit_deferred [] (k, DeferredArrayType n item)
           = emit_deferred [] (k, DeferredArrayType n0 item0)"
proof -
  from assms(2,4) have "X = X0" by simp
  with assms(1,3) show ?thesis by (simp add: emit_deferred_def bind_err_def)
qed

text \<open>
  C9 (as the code has it). The registry is keyed by the derived name, and an assignment
  to a name stores the new shape under it, whether the name was registered or not (the
  last write wins): the emitter stores a tuple property's own size and items under the
  property's wrapper name. Two tuples with the same sequence of element type names and
  the same base (both of \<open>maxItems\<close> 2, or both not) have the same wrapper name; in the
  document of a run that returns, the wrapper name of every emitted tuple property is
  defined exactly once, wherever and however often such properties occur. Registering a
  registered name leaves the names of the registry as they are; the drained output is
  the old one with the new shape written in the place of the stored one, so it is
  unchanged whenever the new shape is written as the stored one is, and that is always so
  for two array wrappers registered under the name \<open>Array_\<close> followed by the type name
  of their items.
\<close>

theorem deferred_registration:
  "(is_tuple p1 \<and> is_tuple p2
      \<and> p_items p1 = Some (ItemsList xs1) \<and> p_items p2 = Some (ItemsList xs2)
      \<and> map get_type_name xs1 = map get_type_name xs2
      \<and> (p_maxItems p1 = Some 2) = (p_maxItems p2 = Some 2)
    \<longrightarrow> get_tuple_type_name p1 = get_tuple_type_name p2)
   \<and> (generate_lines mods sch = Inr ls
      \<and> map_of (definitions sch) n1 = Some dfn1 \<and> d_type dfn1 = Some ''object''
      \<and> d_properties dfn1 = Some raw1 \<and> (name1, p1) \<in> set raw1
      \<and> map_of (definitions sch) n2 = Some dfn2 \<and> d_type dfn2 = Some ''object''
      \<and> d_properties dfn2 = Some raw2 \<and> (name2, p2) \<in> set raw2
      \<and> \<not> is_ref p1 \<and> \<not> is_ref p2 \<and> is_tuple p1 \<and> is_tuple p2
      \<and> get_tuple_type_name p1 = Inr T \<and> get_tuple_type_name p2 = Inr T
    \<longrightarrow> filter (\<lambda>l. deferred_name l = Some T) ls = [TupleOpen T])
   \<and> map_of (dict_set r k v) = (map_of r)(k \<mapsto> v)
   \<and> (\<not> is_ref p1 \<and> is_tuple p1 \<and> get_tuple_type_name p1 = Inr T
      \<and> p_minItems p1 = Some mn \<and> p_items p1 = Some its
      \<and> emit_property st (name1, p1) = Inr st'
    \<longrightarrow> map_of (deferred_types st') T = Some (DeferredTupleType T mn its))
   \<and> (k \<in> fst ` set r \<longrightarrow> map fst (dict_set r k v) = map fst r)
   \<and> (distinct (map fst r) \<and> k \<in> fst ` set r
    \<longrightarrow> emit_deferreds out0 (sort_key fst (dict_set r k v))
          = emit_deferreds out0 (map (\<lambda>e. if fst e = k then (k, v) else e) (sort_key fst r)))
   \<and> (distinct (map fst r) \<and> map_of r k = Some v0
      \<and> emit_deferred [] (k, v) = emit_deferred [] (k, v0)
    \<longrightarrow> emit_deferreds out0 (sort_key fst (dict_set r k v))
          = emit_deferreds out0 (sort_key fst r))
   \<and> (distinct (map fst r) \<and> map_of r k = Some (DeferredArrayType a0 item0)
      \<and> get_type_name item0 = Inr X0 \<and> k = ''Array_'' @ X0
      \<and> get_type_name item = Inr X \<and> k = ''Array_'' @ X
    \<longrightarrow> emit_deferreds out0 (sort_key fst (dict_set r k (DeferredArrayType a item)))
          = emit_deferreds out0 (sort_key fst r))"
proof (intro conjI impI)
  assume "is_tuple p1 \<and> is_tuple p2
      \<and> p_items p1 = Some (ItemsList xs1) \<and> p_items p2 = Some (ItemsList xs2)
      \<and> map get_type_name xs1 = map get_type_name xs2
      \<and> (p_maxItems p1 = Some 2) = (p_maxItems p2 = Some 2)"
  then show "get_tuple_type_name p1 = get_tuple_type_name p2"
    by (elim conjE) (rule same_names_same_tuple_name)
next
  assume a: "generate_lines mods sch = Inr ls
      \<and> map_of (definitions sch) n1 = Some dfn1 \<and> d_type dfn1 = Some ''object''
      \<and> d_properties dfn1 = Some raw1 \<and> (name1, p1) \<in> set raw1
      \<and> map_of (definitions sch) n2 = Some dfn2 \<and> d_type dfn2 = Some ''object''
      \<and> d_properties dfn2 = Some raw2 \<and> (name2, p2) \<in> set raw2
      \<and> \<not> is_ref p1 \<and> \<not> is_ref p2 \<and> is_tuple p1 \<and> is_tuple p2
      \<and> get_tuple_type_name p1 = Inr T \<and> get_tuple_type_name p2 = Inr T"
  then have "generate_lines mods sch = Inr ls" "map_of (definitions sch) n1 = Some dfn1"
    "d_type dfn1 = Some ''object''" "d_properties dfn1 = Some raw1" "(name1, p1) \<in> set raw1"
    "\<not> is_ref p1" "is_tuple p1" "get_tuple_type_name p1 = Inr T"
    by simp_all
  then show "filter (\<lambda>l. deferred_name l = Some T) ls = [TupleOpen T]"
    by (rule run_tuple_definition)
next
  show "map_of (dict_set r k v) = (map_of r)(k \<mapsto> v)"
    by (rule map_of_dict_set)
next
  assume "\<not> is_ref p1 \<and> is_tuple p1 \<and> get_tuple_type_name p1 = Inr T
      \<and> p_minItems p1 = Some mn \<and> p_items p1 = Some its
      \<and> emit_property st (name1, p1) = Inr st'"
  then show "map_of (deferred_types st') T = Some (DeferredTupleType T mn its)"
    by (elim conjE) (rule emit_property_tuple_stores)
next
  assume "k \<in> fst ` set r"
  then show "map fst (dict_set r k v) = map fst r"
    by (simp add: map_fst_dict_set)
next
  assume "distinct (map fst r) \<and> k \<in> fst ` set r"
  then have "sort_key fst (dict_set r k v)
           = map (\<lambda>e. if fst e = k then (k, v) else e) (sort_key fst r)"
    by (elim conjE) (rule drained_after_registration)
  then show "emit_deferreds out0 (sort_key fst (dict_set r k v))
          = emit_deferreds out0 (map (\<lambda>e. if fst e = k then (k, v) else e) (sort_key fst r))"
    by (rule arg_cong)
next
  assume "distinct (map fst r) \<and> map_of r k = Some v0
      \<and> emit_deferred [] (k, v) = emit_deferred [] (k, v0)"
  then show "emit_deferreds out0 (sort_key fst (dict_set r k v))
          = emit_deferreds out0 (sort_key fst r)"
    by (elim conjE) (rule reregistration)
next
  assume a: "distinct (map fst r) \<and> map_of r k = Some (DeferredArrayType a0 item0)
      \<and> get_type_name item0 = Inr X0 \<and> k = ''Array_'' @ X0
      \<and> get_type_name item = Inr X \<and> k = ''Array_'' @ X"
  then have w: "emit_deferred [] (k, DeferredArrayType a item)
           = emit_deferred [] (k, DeferredArrayType a0 item0)"
    by (elim conjE) (rule array_wrappers_written_alike)
  from a have d: "distinct (map fst r)" by (elim conjE)
  from a have m: "map_of r k = Some (DeferredArrayType a0 item0)" by (elim conjE)
  from d m w show "emit_deferreds out0 (sort_key fst (dict_set r k (DeferredArrayType a item)))
          = emit_deferreds out0 (sort_key fst r)"
    by (rule reregistration)
qed

theorem deferred_registration_witness:
  "is_tuple pair_by_refs \<and> is_tuple pair_by_title
   \<and> p_items pair_by_refs = Some (ItemsList [ref_to ''Address'', ref_to ''Match''])
   \<and> p_items pair_by_title = Some (ItemsList [ref_to ''Address'', object_titled ''Match''])
   \<and> map get_type_name [ref_to ''Address'', ref_to ''Match'']
       = map get_type_name [ref_to ''Address'', object_titled ''Match'']
   \<and> (p_maxItems pair_by_refs = Some 2) = (p_maxItems pair_by_title = Some 2)
   \<and> get_tuple_type_name pair_by_refs = Inr ''Pair_Address_Match''
   \<and> get_tuple_type_name pair_by_title = Inr ''Pair_Address_Match''
   \<and> generate_lines pairs_classes pairs_schema = Inr pairs_lines
   \<and> map_of (definitions pairs_schema) ''Hit'' = Some (object_def ''Hit'' [(''location'', pair_by_refs)])
   \<and> map_of (definitions pairs_schema) ''Rule'' = Some (object_def ''Rule'' [(''span'', pair_by_title)])
   \<and> \<not> is_ref pair_by_refs \<and> \<not> is_ref pair_by_title
   \<and> filter (\<lambda>l. deferred_name l = Some ''Pair_Address_Match'') pairs_lines
       = [TupleOpen ''Pair_Address_Match'']
   \<and> p_minItems pair_by_refs = Some 2
   \<and> emit_property (first_state []) (''location'', pair_by_refs)
       = Inr \<lparr>out = [MessageField ''Pair_Address_Match'' ''location'' 1],
              deferred_types =
                [(''Pair_Address_Match'',
                  DeferredTupleType ''Pair_Address_Match'' 2
                    (ItemsList [ref_to ''Address'', ref_to ''Match'']))],
              counter = 2\<rparr>
   \<and> map_of
         (dict_set
            [(''Pair_Address_Match'',
              DeferredTupleType ''Pair_Address_Match'' 2
                (ItemsList [ref_to ''Address'', ref_to ''Match'']))]
            ''Pair_Address_Match''
            (DeferredTupleType ''Pair_Address_Match'' 2
               (ItemsList [ref_to ''Address'', object_titled ''Match''])))
         ''Pair_Address_Match''
       = Some (DeferredTupleType ''Pair_Address_Match'' 2
                 (ItemsList [ref_to ''Address'', object_titled ''Match'']))
   \<and> ''Pair_Address_Match''
       \<in> fst ` set [(''Pair_Address_Match'',
                     DeferredTupleType ''Pair_Address_Match'' 2
                       (ItemsList [ref_to ''Address'', ref_to ''Match'']))]
   \<and> emit_deferred []
        (''Pair_Address_Match'',
         DeferredTupleType ''Pair_Address_Match'' 2
           (ItemsList [ref_to ''Address'', object_titled ''Match'']))
     = emit_deferred []
        (''Pair_Address_Match'',
         DeferredTupleType ''Pair_Address_Match'' 2
           (ItemsList [ref_to ''Address'', ref_to ''Match'']))
   \<and> emit_deferreds []
        (sort_key fst
           (dict_set
              [(''Pair_Address_Match'',
                DeferredTupleType ''Pair_Address_Match'' 2
                  (ItemsList [ref_to ''Address'', ref_to ''Match'']))]
              ''Pair_Address_Match''
              (DeferredTupleType ''Pair_Address_Match'' 2
                 (ItemsList [ref_to ''Address'', object_titled ''Match'']))))
     = emit_deferreds []
        (sort_key fst
           [(''Pair_Address_Match'',
             DeferredTupleType ''Pair_Address_Match'' 2
               (ItemsList [ref_to ''Address'', ref_to ''Match'']))])
   \<and> get_type_name (ref_to ''Address'') = Inr ''Address''
   \<and> get_type_name (object_titled ''Address'') = Inr ''Address''
   \<and> emit_deferreds []
        (sort_key fst
           (dict_set
              [(''Array_Address'', DeferredArrayType ''Array_Address'' (ref_to ''Address''))]
              ''Array_Address''
              (DeferredArrayType ''Array_Address'' (object_titled ''Address''))))
     = emit_deferreds []
        (sort_key fst
           [(''Array_Address'', DeferredArrayType ''Array_Address'' (ref_to ''Address''))])"
proof -
  let ?r = "[(''Pair_Address_Match'',
              DeferredTupleType ''Pair_Address_Match'' 2
                (ItemsList [ref_to ''Address'', ref_to ''Match'']))]"
  let ?v = "DeferredTupleType ''Pair_Address_Match'' 2
              (ItemsList [ref_to ''Address'', object_titled ''Match''])"
  let ?ra = "[(''Array_Address'', DeferredArrayType ''Array_Address'' (ref_to ''Address''))]"
  note t1 = deferred_registration [where ?p1.0 = pair_by_refs and ?p2.0 = pair_by_title
      and ?xs1.0 = "[ref_to ''Address'', ref_to ''Match'']"
      and ?xs2.0 = "[ref_to ''Address'', object_titled ''Match'']"
      and mods = pairs_classes and sch = pairs_schema and ls = pairs_lines
      and ?n1.0 = "''Hit''" and ?dfn1.0 = "object_def ''Hit'' [(''location'', pair_by_refs)]"
      and ?raw1.0 = "[(''location'', pair_by_refs)]" and ?name1.0 = "''location''"
      and ?n2.0 = "''Rule''" and ?dfn2.0 = "object_def ''Rule'' [(''span'', pair_by_title)]"
      and ?raw2.0 = "[(''span'', pair_by_title)]" and ?name2.0 = "''span''"
      and T = "''Pair_Address_Match''" and k = "''Pair_Address_Match''"
      and mn = 2 and its = "ItemsList [ref_to ''Address'', ref_to ''Match'']"
      and st = "first_state []"
      and r = ?r and v = ?v
      and ?v0.0 = "DeferredTupleType ''Pair_Address_Match'' 2
                 (ItemsList [ref_to ''Address'', ref_to ''Match''])"
      and ?out0.0 = "[]"]
  note t2 = deferred_registration [where k = "''Array_Address''" and r = ?ra
      and ?a0.0 = "''Array_Address''" and ?item0.0 = "ref_to ''Address''"
      and ?X0.0 = "''Address''" and a = "''Array_Address''"
      and item = "object_titled ''Address''" and X = "''Address''" and ?out0.0 = "[]"]
  have tup: "is_tuple pair_by_refs" "is_tuple pair_by_title"
    "\<not> is_ref pair_by_refs" "\<not> is_ref pair_by_title"
    by (simp_all add: pair_by_refs_def pair_by_title_def eval_simps)
  have items: "p_items pair_by_refs = Some (ItemsList [ref_to ''Address'', ref_to ''Match''])"
    "p_items pair_by_title = Some (ItemsList [ref_to ''Address'', object_titled ''Match''])"
    "p_minItems pair_by_refs = Some 2"
    "(p_maxItems pair_by_refs = Some 2) = (p_maxItems pair_by_title = Some 2)"
    by (simp_all add: pair_by_refs_def pair_by_title_def eval_simps)
  have names: "map get_type_name [ref_to ''Address'', ref_to ''Match'']
       = map get_type_name [ref_to ''Address'', object_titled ''Match'']"
    "get_type_name (ref_to ''Address'') = Inr ''Address''"
    "get_type_name (object_titled ''Address'') = Inr ''Address''"
    by (simp_all add: eval_simps)
  have n1: "get_tuple_type_name pair_by_refs = Inr ''Pair_Address_Match''"
    by (simp add: pair_by_refs_def eval_simps)
  have "get_tuple_type_name pair_by_refs = get_tuple_type_name pair_by_title"
    using t1 [THEN conjunct1] tup items names(1) by (simp only: simp_thms)
  with n1 have n2: "get_tuple_type_name pair_by_title = Inr ''Pair_Address_Match''"
    by simp
  have defs: "map_of (definitions pairs_schema) ''Hit''
                = Some (object_def ''Hit'' [(''location'', pair_by_refs)])"
    "map_of (definitions pairs_schema) ''Rule''
                = Some (object_def ''Rule'' [(''span'', pair_by_title)])"
    by (simp_all add: pairs_schema_def)
  have "filter (\<lambda>l. deferred_name l = Some ''Pair_Address_Match'') pairs_lines
       = [TupleOpen ''Pair_Address_Match'']"
    using t1 [THEN conjunct2, THEN conjunct1] pairs_lines_run defs tup n1 n2
    by (simp add: object_def_def)
  moreover have em: "emit_property (first_state []) (''location'', pair_by_refs)
       = Inr \<lparr>out = [MessageField ''Pair_Address_Match'' ''location'' 1],
              deferred_types = ?r, counter = 2\<rparr>"
    by (simp add: first_state_def pair_by_refs_def eval_simps)
  moreover have "map_of (dict_set ?r ''Pair_Address_Match'' ?v) ''Pair_Address_Match'' = Some ?v"
    using t1 [THEN conjunct2, THEN conjunct2, THEN conjunct1] by simp
  moreover have key: "''Pair_Address_Match'' \<in> fst ` set ?r" by simp
  moreover have same: "emit_deferred [] (''Pair_Address_Match'', ?v)
     = emit_deferred []
        (''Pair_Address_Match'',
         DeferredTupleType ''Pair_Address_Match'' 2
           (ItemsList [ref_to ''Address'', ref_to ''Match'']))"
    by (simp add: run_simps eval_simps)
  moreover have "emit_deferreds [] (sort_key fst (dict_set ?r ''Pair_Address_Match'' ?v))
     = emit_deferreds [] (sort_key fst ?r)"
    by (simp add: run_simps eval_simps)
  moreover have "emit_deferreds []
        (sort_key fst
           (dict_set ?ra ''Array_Address''
              (DeferredArrayType ''Array_Address'' (object_titled ''Address''))))
     = emit_deferreds [] (sort_key fst ?ra)"
    using t2 [THEN conjunct2, THEN conjunct2, THEN conjunct2, THEN conjunct2, THEN conjunct2,
        THEN conjunct2, THEN conjunct2] names(2,3)
    by simp
  ultimately show ?thesis
    using tup items names n1 n2 pairs_lines_run defs by (intro conjI)
qed

text \<open>
  The pairs \<open>(A_B, C)\<close> and \<open>(A, B_C)\<close> are both named \<open>Pair_A_B_C\<close>. After the first
  property the registry drains to the fields \<open>A_B\<close> and \<open>C\<close>; the second property
  registers the same name again, and the registry drains to the fields \<open>A\<close> and \<open>B_C\<close>.
\<close>

theorem deferred_registration_counterexample:
  "emit_properties (first_state []) [(''first'', pair_first)]
     = Inr \<lparr>out = [MessageField ''Pair_A_B_C'' ''first'' 1],
            deferred_types =
              [(''Pair_A_B_C'',
                DeferredTupleType ''Pair_A_B_C'' 2 (ItemsList [ref_to ''A_B'', ref_to ''C'']))],
            counter = 2\<rparr>
   \<and> emit_properties (first_state []) [(''first'', pair_first), (''second'', pair_second)]
     = Inr \<lparr>out = [MessageField ''Pair_A_B_C'' ''first'' 1,
                   MessageField ''Pair_A_B_C'' ''second'' 2],
            deferred_types =
              [(''Pair_A_B_C'',
                DeferredTupleType ''Pair_A_B_C'' 2 (ItemsList [ref_to ''A'', ref_to ''B_C'']))],
            counter = 3\<rparr>
   \<and> emit_deferreds []
       (sort_key fst
          [(''Pair_A_B_C'',
            DeferredTupleType ''Pair_A_B_C'' 2 (ItemsList [ref_to ''A_B'', ref_to ''C'']))])
     = Inr [TupleOpen ''Pair_A_B_C'', TupleField ''A_B'' 0 1, TupleField ''C'' 1 2, TupleClose]
   \<and> emit_deferreds []
       (sort_key fst
          (dict_set
             [(''Pair_A_B_C'',
               DeferredTupleType ''Pair_A_B_C'' 2 (ItemsList [ref_to ''A_B'', ref_to ''C'']))]
             ''Pair_A_B_C''
             (DeferredTupleType ''Pair_A_B_C'' 2 (ItemsList [ref_to ''A'', ref_to ''B_C'']))))
     = Inr [TupleOpen ''Pair_A_B_C'', TupleField ''A'' 0 1, TupleField ''B_C'' 1 2, TupleClose]"
  by (simp add: first_state_def pair_first_def pair_second_def run_simps eval_simps)

end
